theory Spec2Isabelle
  imports Complex_Main "HOL-Library.Signed_Division"
begin

section \<open>Data model (include/common.h)\<close>

text \<open>
  The C structures are records, the enumerations are datatypes. A C \<open>double\<close> is
  modelled by an exact \<open>real\<close>; a C \<open>int\<close> is modelled by \<open>int\<close>: the counters
  of this program are bounded by the number of robots, boxes and mangos, far below
  \<open>2^31\<close>. A fixed-size C array is a list whose length is the declared bound; an
  index is converted with \<open>nat\<close> where the code has already checked its range.
  The fields \<open>id\<close>, \<open>x\<close>, \<open>y\<close> and \<open>state\<close> of a structure carry the name of
  the structure as a prefix, and the fields \<open>X\<close>, \<open>Z\<close>, \<open>W\<close>, \<open>B\<close> and
  \<open>num_robots\<close> of \<open>SystemParams\<close> the prefix \<open>param\<close>.
\<close>

definition MAX_ROBOTS :: int where
  "MAX_ROBOTS = 32"

definition MAX_MANGOS_PER_BOX :: int where
  "MAX_MANGOS_PER_BOX = 100"

datatype RobotState =
    ROBOT_STATE_IDLE
  | ROBOT_STATE_ACTIVE
  | ROBOT_STATE_LABELING
  | ROBOT_STATE_RETURNING
  | ROBOT_STATE_DISABLED
  | ROBOT_STATE_FAILED
  | ROBOT_STATE_BACKUP

datatype MangoState =
    MANGO_UNLABELED
  | MANGO_BEING_LABELED
  | MANGO_LABELED

record Mango =
  mango_id :: int
  mango_x :: real
  mango_y :: real
  mango_state :: MangoState
  labeled_by_robot :: int
  label_time :: real

record Box =
  box_id :: int
  num_mangos :: int
  mangos :: "Mango list"
  position :: real
  entry_time :: real
  labeled_count :: int
  completed :: bool

record Robot =
  robot_id :: int
  axis_position :: real
  robot_state :: RobotState
  current_mango :: int
  labels_placed :: int
  last_action_time :: real
  is_backup :: bool
  replacing_robot :: int
  failure_probability :: real
  has_failed :: bool

record SystemParams =
  param_X :: real
  param_Z :: real
  param_W :: real
  param_num_robots :: int
  N_min :: int
  N_max :: int
  param_B :: real
  robot_speed :: real
  robot_spacing :: real
  box_spacing :: real
  num_backup_robots :: int

section \<open>Claim protocol of the live controller (src/robot\_controller.c)\<close>

text \<open>
  The part of the controller's global state that the claim protocol touches: the box
  under processing (\<open>g_current_box\<close>) and the per-mango owner table of the shared
  memory region (\<open>g_shm->mango_lock\<close>). Both arrays have \<open>MAX_MANGOS_PER_BOX\<close>
  slots.
\<close>

record claim_state =
  g_current_box :: Box
  mango_lock :: "int list"

definition wf_claim_state :: "claim_state \<Rightarrow> bool" where
  "wf_claim_state s \<longleftrightarrow>
     int (length (mangos (g_current_box s))) = MAX_MANGOS_PER_BOX \<and>
     int (length (mango_lock s)) = MAX_MANGOS_PER_BOX"

text \<open>
  \<open>try_claim_mango\<close>: the range check happens before the mutex is taken; the test of
  the item state and the two writes happen between \<open>pthread_mutex_lock\<close> and
  \<open>pthread_mutex_unlock\<close> of \<open>g_mango_mutex\<close>, so the body is one atomic step of
  the shared state. The result is the C return value (\<open>0\<close> or \<open>-1\<close>) and the state
  after the call.
\<close>

definition try_claim_mango :: "int \<Rightarrow> int \<Rightarrow> claim_state \<Rightarrow> int \<times> claim_state" where
  "try_claim_mango rid mid s =
     (if mid < 0 \<or> mid \<ge> MAX_MANGOS_PER_BOX then (- 1, s)
      else if mango_state (mangos (g_current_box s) ! nat mid) \<noteq> MANGO_UNLABELED then (- 1, s)
      else (0, s\<lparr> g_current_box := (g_current_box s)\<lparr> mangos :=
                    (mangos (g_current_box s))[nat mid :=
                       (mangos (g_current_box s) ! nat mid)\<lparr> mango_state := MANGO_BEING_LABELED \<rparr>] \<rparr>,
                  mango_lock := (mango_lock s)[nat mid := rid] \<rparr>))"

text \<open>The state of the item in slot \<open>i\<close> of the current box.\<close>

definition item_state :: "claim_state \<Rightarrow> nat \<Rightarrow> MangoState" where
  "item_state s i = mango_state (mangos (g_current_box s) ! i)"

text \<open>
  A schedule of claim attempts on one item: the list gives the robots in the order in
  which their critical sections acquire \<open>g_mango_mutex\<close>. Since every attempt runs
  wholly under that mutex, each concurrent execution of \<open>N\<close> attempts is one such
  order. The result lists the return values in the same order.
\<close>

fun claim_attempts :: "int list \<Rightarrow> int \<Rightarrow> claim_state \<Rightarrow> int list \<times> claim_state" where
  "claim_attempts [] mid s = ([], s)"
| "claim_attempts (r # rs) mid s =
     (case try_claim_mango r mid s of
        (res, s') \<Rightarrow> (case claim_attempts rs mid s' of
                        (ress, s'') \<Rightarrow> (res # ress, s'')))"

text \<open>
  A slot of a box cleared by \<open>memset\<close> (or of a zero-initialised static array): all
  fields zero, so the state is \<open>MANGO_UNLABELED\<close>, the first enumerator. A box as
  the receiver thread installs it before any claim: every slot Unclaimed, every entry
  of the lock table \<open>-1\<close>.
\<close>

definition cleared_mango :: Mango where
  "cleared_mango = \<lparr> mango_id = 0, mango_x = 0, mango_y = 0, mango_state = MANGO_UNLABELED,
                      labeled_by_robot = 0, label_time = 0 \<rparr>"

definition fresh_box :: "int \<Rightarrow> Box" where
  "fresh_box n = \<lparr> box_id = 0, num_mangos = n, mangos = replicate 100 cleared_mango,
                   position = 0, entry_time = 0, labeled_count = 0, completed = False \<rparr>"

definition fresh_claim_state :: "int \<Rightarrow> claim_state" where
  "fresh_claim_state n = \<lparr> g_current_box = fresh_box n, mango_lock = replicate 100 (- 1) \<rparr>"


section \<open>Robot roster of the live controller (src/robot\_controller.c)\<close>

text \<open>
  The globals that the roster operations touch: \<open>g_robots\<close> (an array of
  \<open>MAX_ROBOTS\<close> slots), \<open>g_num_robots\<close> (main robots plus backups),
  \<open>g_params\<close>, and of the shared memory region the robot copies and the counters
  \<open>active_robots\<close>, \<open>stats.robot_failures\<close> and \<open>stats.backup_activations\<close>.
\<close>

record controller =
  g_robots :: "Robot list"
  g_num_robots :: int
  g_params :: SystemParams
  shm_robots :: "Robot list"
  shm_active_robots :: int
  shm_robot_failures :: int
  shm_backup_activations :: int

text \<open>The value of \<open>RAND_MAX\<close> of the C library (glibc).\<close>

definition RAND_MAX :: int where
  "RAND_MAX = 2147483647"

text \<open>The body of the loop of \<open>init_robots\<close> for index \<open>i\<close>.\<close>

definition init_robot_slot :: "int \<Rightarrow> nat \<Rightarrow> controller \<Rightarrow> controller" where
  "init_robot_slot num_robots i st =
     (let r0 = (g_robots st ! i)\<lparr> robot_id := int i, labels_placed := 0, current_mango := - 1,
                 last_action_time := 0, failure_probability := param_B (g_params st),
                 has_failed := False, replacing_robot := - 1 \<rparr>;
          r = (if int i < num_robots
               then r0\<lparr> axis_position := (real i + 0.5) * robot_spacing (g_params st),
                        robot_state := ROBOT_STATE_IDLE, is_backup := False \<rparr>
               else r0\<lparr> axis_position := 0,
                        robot_state := ROBOT_STATE_DISABLED, is_backup := True \<rparr>)
      in st\<lparr> g_robots := (g_robots st)[i := r], shm_robots := (shm_robots st)[i := r] \<rparr>)"

text \<open>
  \<open>init_robots\<close>: returns \<open>-1\<close> and changes nothing when the total exceeds
  \<open>MAX_ROBOTS\<close>; otherwise sets the counts and the spacing \<open>W / num_robots\<close>,
  initialises the slots \<open>0 .. total - 1\<close> in ascending order and returns \<open>0\<close>.
\<close>

definition init_robots :: "int \<Rightarrow> int \<Rightarrow> controller \<Rightarrow> int \<times> controller" where
  "init_robots num_robots num_backup st =
     (let total_robots = num_robots + num_backup in
      if total_robots > MAX_ROBOTS then (- 1, st)
      else
        let st1 = st\<lparr> g_num_robots := total_robots,
                      g_params := (g_params st)\<lparr> param_num_robots := num_robots,
                                                 num_backup_robots := num_backup,
                                                 robot_spacing := param_W (g_params st) / real_of_int num_robots \<rparr> \<rparr>;
            st2 = fold (init_robot_slot num_robots) [0 ..< nat total_robots] st1
        in (0, st2\<lparr> shm_active_robots := num_robots \<rparr>))"

text \<open>\<open>calculate_effective_time\<close>: the time window of a robot for one box.\<close>

definition calculate_effective_time :: "int \<Rightarrow> controller \<Rightarrow> real" where
  "calculate_effective_time rid st =
     (let robot_axis = axis_position (g_robots st ! nat rid);
          next_axis = (if rid + 1 < g_num_robots st
                       then axis_position (g_robots st ! nat (rid + 1))
                       else param_W (g_params st))
      in (next_axis - robot_axis) / param_X (g_params st))"

text \<open>
  \<open>activate_backup_robot\<close>: the loop over \<open>i = g_params.num_robots .. g_num_robots - 1\<close>
  is a recursion over that index range; the first robot that is a backup in state
  Disabled is bound and the function returns, otherwise only a warning is logged.
\<close>

fun backup_scan :: "nat list \<Rightarrow> int \<Rightarrow> controller \<Rightarrow> controller" where
  "backup_scan [] failed_robot_id st = st"
| "backup_scan (i # is) failed_robot_id st =
     (if is_backup (g_robots st ! i) \<and> robot_state (g_robots st ! i) = ROBOT_STATE_DISABLED
      then
        let r = (g_robots st ! i)\<lparr> robot_state := ROBOT_STATE_BACKUP,
                                   replacing_robot := failed_robot_id,
                                   axis_position := axis_position (g_robots st ! nat failed_robot_id) \<rparr>
        in st\<lparr> g_robots := (g_robots st)[i := r],
               shm_backup_activations := shm_backup_activations st + 1,
               shm_robots := (shm_robots st)[i := r] \<rparr>
      else backup_scan is failed_robot_id st)"

definition activate_backup_robot :: "int \<Rightarrow> controller \<Rightarrow> controller" where
  "activate_backup_robot failed_robot_id st =
     backup_scan [nat (param_num_robots (g_params st)) ..< nat (g_num_robots st)] failed_robot_id st"

text \<open>
  \<open>check_robot_failure\<close> for the robot in slot \<open>k\<close> (the thread's \<open>Robot *\<close> points
  into \<open>g_robots\<close>); \<open>rv\<close> is the value that \<open>rand()\<close> returns if it is called. The
  failure threshold of one cycle is \<open>B / 1000\<close>.
\<close>

definition check_robot_failure :: "nat \<Rightarrow> int \<Rightarrow> controller \<Rightarrow> int \<times> controller" where
  "check_robot_failure k rv st =
     (if has_failed (g_robots st ! k) then (1, st)
      else if param_B (g_params st) > 0 \<and> \<not> is_backup (g_robots st ! k) then
        (let r = real_of_int rv / real_of_int RAND_MAX in
         if r < param_B (g_params st) / 1000
         then
           let robot = (g_robots st ! k)\<lparr> has_failed := True, robot_state := ROBOT_STATE_FAILED \<rparr>;
               st1 = st\<lparr> g_robots := (g_robots st)[k := robot],
                         shm_robot_failures := shm_robot_failures st + 1 \<rparr>
           in (1, activate_backup_robot (robot_id robot) st1)
         else (0, st))
      else (0, st))"





text \<open>
  The roster as the program starts: \<open>g_robots\<close> is a zero-initialised static array,
  the shared region was cleared by its creator, and the parameters are those of the
  command line.
\<close>

definition zero_robot :: Robot where
  "zero_robot = \<lparr> robot_id = 0, axis_position = 0, robot_state = ROBOT_STATE_IDLE,
                   current_mango = 0, labels_placed = 0, last_action_time = 0,
                   is_backup = False, replacing_robot = 0, failure_probability = 0,
                   has_failed = False \<rparr>"

definition default_params :: SystemParams where
  "default_params = \<lparr> param_X = 10, param_Z = 50, param_W = 300, param_num_robots = 0,
                       N_min = 10, N_max = 12, param_B = 0, robot_speed = 50 / 10,
                       robot_spacing = 0, box_spacing = 50 * 1.5, num_backup_robots = 0 \<rparr>"

definition start_controller :: "SystemParams \<Rightarrow> controller" where
  "start_controller p = \<lparr> g_robots = replicate 32 zero_robot, g_num_robots = 0, g_params = p,
                           shm_robots = replicate 32 zero_robot, shm_active_robots = 0,
                           shm_robot_failures = 0, shm_backup_activations = 0 \<rparr>"

text \<open>A sequence of failure notifications, in the order in which they are raised.\<close>

definition notify_failures :: "int list \<Rightarrow> controller \<Rightarrow> controller" where
  "notify_failures fs st = fold activate_backup_robot fs st"






definition roster_4_1 :: controller where
  "roster_4_1 = snd (init_robots 4 1 (start_controller default_params))"


section \<open>Capacity estimates\<close>

text \<open>
  The C cast \<open>(int)d\<close> of a double truncates towards zero (it is defined for values
  within the range of \<open>int\<close>).
\<close>

definition int_of_double :: "real \<Rightarrow> int" where
  "int_of_double d = (if d \<ge> 0 then \<lfloor>d\<rfloor> else \<lceil>d\<rceil>)"

text \<open>
  The capacity of one robot per box in the batch estimator
  (\<open>mangos_per_station\<close> in \<open>run_single_simulation\<close>, src/simulator.c).
\<close>

definition mangos_per_station :: "SystemParams \<Rightarrow> real \<Rightarrow> int" where
  "mangos_per_station p effective_time =
     (let time_per_station = effective_time;
          avg_time_per_mango = param_Z p / robot_speed p / 1.5;
          m = int_of_double (time_per_station / avg_time_per_mango)
      in if m < 1 then 1 else m)"

text \<open>
  The required-robot estimator of the live controller (\<open>calculate_required_robots\<close>,
  src/robot\_controller.c); \<open>mangos_per_robot\<close> is its local variable of that name.
  The integer division of C truncates.
\<close>

definition mangos_per_robot :: "SystemParams \<Rightarrow> int" where
  "mangos_per_robot p =
     (let time_per_robot = robot_spacing p / param_X p;
          avg_distance = param_Z p / 3;
          time_per_label = avg_distance / robot_speed p;
          m = int_of_double (time_per_robot / time_per_label)
      in if m < 1 then 1 else m)"

definition calculate_required_robots :: "SystemParams \<Rightarrow> int \<Rightarrow> int" where
  "calculate_required_robots p n = (n + mangos_per_robot p - 1) sdiv mangos_per_robot p"

section \<open>Random source and box generator (include/common.h, src/vision\_system.c)\<close>

text \<open>
  The stream of values that successive calls of \<open>rand()\<close> return: \<open>g 0\<close> is the next
  value. The C library promises values in \<open>[0, RAND_MAX]\<close>.
\<close>

type_synonym rng = "nat \<Rightarrow> int"

definition rng_ok :: "rng \<Rightarrow> bool" where
  "rng_ok g \<longleftrightarrow> (\<forall>k. 0 \<le> g k \<and> g k \<le> RAND_MAX)"

definition rand :: "rng \<Rightarrow> int \<times> rng" where
  "rand g = (g 0, \<lambda>k. g (Suc k))"

text \<open>
  \<open>random_int\<close> and \<open>random_range\<close>. The remainder \<open>%\<close> of C truncates
  (\<open>smod\<close>); C leaves \<open>%\<close> by zero undefined.
\<close>

definition random_int :: "int \<Rightarrow> int \<Rightarrow> rng \<Rightarrow> int \<times> rng" where
  "random_int lo hi g = (case rand g of (v, g') \<Rightarrow> (lo + v smod (hi - lo + 1), g'))"

definition random_range :: "real \<Rightarrow> real \<Rightarrow> rng \<Rightarrow> real \<times> rng" where
  "random_range lo hi g =
     (case rand g of (v, g') \<Rightarrow> (lo + (real_of_int v / real_of_int RAND_MAX) * (hi - lo), g'))"

definition distance :: "real \<Rightarrow> real \<Rightarrow> real \<Rightarrow> real \<Rightarrow> real" where
  "distance x1 y1 x2 y2 = sqrt ((x2 - x1) * (x2 - x1) + (y2 - y1) * (y2 - y1))"

text \<open>
  The inner loop \<open>for (j = 0; j < i && valid; j++)\<close>: the result is the final value of
  the flag, which starts as true and becomes false at the first earlier item that is
  closer than the minimum distance.
\<close>

fun far_from_placed :: "Mango list \<Rightarrow> nat list \<Rightarrow> real \<Rightarrow> real \<Rightarrow> real \<Rightarrow> bool" where
  "far_from_placed arr [] x y d = True"
| "far_from_placed arr (j # js) x y d =
     (if distance x y (mango_x (arr ! j)) (mango_y (arr ! j)) < d then False
      else far_from_placed arr js x y d)"

text \<open>
  The rejection-sampling loop \<open>while (!valid && attempts < 100)\<close> for item \<open>i\<close>: each
  round writes a fresh position into slot \<open>i\<close>, checks it against the slots before
  \<open>i\<close> and counts the attempt. The result carries the final flag and attempt count.
\<close>

function place_loop ::
  "real \<Rightarrow> real \<Rightarrow> real \<Rightarrow> nat \<Rightarrow> Mango list \<Rightarrow> bool \<Rightarrow> int \<Rightarrow> rng \<Rightarrow> Mango list \<times> bool \<times> int \<times> rng" where
  "place_loop lo hi d i arr valid attempts g =
     (if \<not> valid \<and> attempts < 100 then
        (let x = fst (random_range lo hi g);
             g1 = snd (random_range lo hi g);
             y = fst (random_range lo hi g1);
             g2 = snd (random_range lo hi g1);
             arr' = arr[i := (arr ! i)\<lparr> mango_x := x, mango_y := y \<rparr>]
         in place_loop lo hi d i arr' (far_from_placed arr' [0 ..< i] x y d) (attempts + 1) g2)
      else (arr, valid, attempts, g))"
  by pat_completeness auto
termination
  by (relation "measure (\<lambda>(lo, hi, d, i, arr, valid, attempts, g). nat (100 - attempts))") auto

declare place_loop.simps [simp del]

text \<open>
  The body of the loop over the items of a box, for item \<open>i\<close>. The state is the item
  array, the list of items for which no valid position was found (for these
  \<open>generate_box\<close> logs its warning), and the random source.
\<close>

definition place_mango ::
  "real \<Rightarrow> real \<Rightarrow> real \<Rightarrow> nat \<Rightarrow> Mango list \<times> nat list \<times> rng \<Rightarrow> Mango list \<times> nat list \<times> rng" where
  "place_mango lo hi d i s =
     (case s of (arr, warned, g) \<Rightarrow>
        let arr0 = arr[i := (arr ! i)\<lparr> mango_id := int i, mango_state := MANGO_UNLABELED,
                                      labeled_by_robot := - 1, label_time := 0 \<rparr>]
        in case place_loop lo hi d i arr0 False 0 g of
             (arr1, valid, attempts, g') \<Rightarrow>
               (arr1, (if \<not> valid then warned @ [i] else warned), g'))"



text \<open>
  The item lies in the square \<open>[lo, hi] \<times> [lo, hi]\<close>; item \<open>i\<close> of the array keeps
  the distance \<open>d\<close> from every item placed before it; and the state of the array and
  the warning list after the first \<open>n\<close> items have been placed.
\<close>

definition in_square :: "real \<Rightarrow> real \<Rightarrow> Mango \<Rightarrow> bool" where
  "in_square lo hi m \<longleftrightarrow> lo \<le> mango_x m \<and> mango_x m \<le> hi \<and> lo \<le> mango_y m \<and> mango_y m \<le> hi"

definition apart_from_earlier :: "real \<Rightarrow> Mango list \<Rightarrow> nat \<Rightarrow> bool" where
  "apart_from_earlier d arr i \<longleftrightarrow>
     (\<forall>j \<in> set [0 ..< i].
        d \<le> distance (mango_x (arr ! i)) (mango_y (arr ! i)) (mango_x (arr ! j)) (mango_y (arr ! j)))"

definition items_placed :: "real \<Rightarrow> real \<Rightarrow> real \<Rightarrow> nat \<Rightarrow> Mango list \<Rightarrow> nat list \<Rightarrow> bool" where
  "items_placed lo hi d n arr warned \<longleftrightarrow>
     (\<forall>i \<in> set [0 ..< n].
        mango_id (arr ! i) = int i \<and> mango_state (arr ! i) = MANGO_UNLABELED \<and>
        labeled_by_robot (arr ! i) = - 1 \<and> label_time (arr ! i) = 0 \<and>
        in_square lo hi (arr ! i) \<and>
        (apart_from_earlier d arr i \<or> i \<in> set warned))"

text \<open>
  What is to hold of a generated box, given the items warned about: the item count lies
  in \<open>[N_min, N_max]\<close>, every item lies in the inner square of the box, and every
  item keeps the minimum distance \<open>Z/15\<close> from each earlier item unless it was
  warned about.
\<close>

definition box_as_generated :: "SystemParams \<Rightarrow> Box \<Rightarrow> nat list \<Rightarrow> bool" where
  "box_as_generated p box warned \<longleftrightarrow>
     N_min p \<le> num_mangos box \<and> num_mangos box \<le> N_max p \<and>
     (\<forall>i \<in> set [0 ..< nat (num_mangos box)].
        in_square (- (param_Z p / 2) + param_Z p / 10) (param_Z p / 2 - param_Z p / 10) (mangos box ! i) \<and>
        (\<forall>j \<in> set [0 ..< i].
           param_Z p / 15 \<le> distance (mango_x (mangos box ! i)) (mango_y (mangos box ! i))
                                   (mango_x (mangos box ! j)) (mango_y (mangos box ! j))
           \<or> i \<in> set warned))"


section \<open>Batch estimator (src/simulator.c)\<close>

record SimulationConfig =
  cfg_params :: SystemParams
  num_boxes :: int
  cfg_num_robots :: int
  num_backup :: int
  failure_prob :: real
  verbose :: bool

record SimulationResult =
  total_mangos :: int
  labeled_mangos :: int
  missed_mangos :: int
  robot_failures :: int
  backup_activations :: int
  total_time :: real
  efficiency :: real
  labels_per_robot :: "int list"

text \<open>
  The globals of the simulator: \<open>g_robots\<close>, \<open>g_num_robots\<close>, \<open>g_boxes\<close> (an array
  of \<open>MAX_BOXES_QUEUE = 50\<close> boxes) and \<open>g_box_count\<close>.
\<close>

record simulator =
  sim_robots :: "Robot list"
  sim_num_robots :: int
  sim_boxes :: "Box list"
  sim_box_count :: int

text \<open>
  \<open>generate_all_boxes\<close>: the body for box \<open>b\<close> overwrites the header fields of the
  slot and the first \<open>num_mangos\<close> items. The second component of the state records,
  box by box, the items whose flag \<open>valid\<close> was false when their placement loop ended
  (the simulator itself does not report them).
\<close>

definition generate_box_slot ::
  "SimulationConfig \<Rightarrow> nat \<Rightarrow> Box list \<times> nat list list \<times> rng \<Rightarrow> Box list \<times> nat list list \<times> rng" where
  "generate_box_slot config b s =
     (case s of (boxes, warned_all, g) \<Rightarrow>
        let half_size = param_Z (cfg_params config) / 2;
            margin = param_Z (cfg_params config) / 10;
            min_distance = param_Z (cfg_params config) / 15
        in case random_int (N_min (cfg_params config)) (N_max (cfg_params config)) g of
             (n, g1) \<Rightarrow>
               case fold (place_mango (- half_size + margin) (half_size - margin) min_distance)
                         [0 ..< nat n] (mangos (boxes ! b), [], g1) of
                 (arr, warned, g2) \<Rightarrow>
                   (boxes[b := (boxes ! b)\<lparr> box_id := int b, entry_time := 0, position := 0,
                                              completed := False, labeled_count := 0,
                                              num_mangos := n, mangos := arr \<rparr>],
                    warned_all @ [warned], g2))"

definition generate_all_boxes ::
  "SimulationConfig \<Rightarrow> simulator \<Rightarrow> rng \<Rightarrow> simulator \<times> nat list list \<times> rng" where
  "generate_all_boxes config sim g =
     (case fold (generate_box_slot config) [0 ..< nat (num_boxes config)] (sim_boxes sim, [], g) of
        (boxes, warned_all, g') \<Rightarrow>
          (sim\<lparr> sim_boxes := boxes, sim_box_count := num_boxes config \<rparr>, warned_all, g'))"

text \<open>The body of the robot loop of \<open>init_simulation\<close> for index \<open>i\<close>.\<close>

definition init_sim_robot :: "SimulationConfig \<Rightarrow> real \<Rightarrow> nat \<Rightarrow> Robot list \<Rightarrow> Robot list" where
  "init_sim_robot config spacing i rs =
     (let r0 = (rs ! i)\<lparr> robot_id := int i, labels_placed := 0, current_mango := - 1,
                 last_action_time := 0, failure_probability := failure_prob config,
                 has_failed := False, replacing_robot := - 1 \<rparr>;
          r = (if int i < cfg_num_robots config
               then r0\<lparr> axis_position := (real i + 0.5) * spacing,
                        robot_state := ROBOT_STATE_IDLE, is_backup := False \<rparr>
               else r0\<lparr> axis_position := 0,
                        robot_state := ROBOT_STATE_DISABLED, is_backup := True \<rparr>)
      in rs[i := r])"

definition init_simulation ::
  "SimulationConfig \<Rightarrow> simulator \<Rightarrow> rng \<Rightarrow> simulator \<times> nat list list \<times> rng" where
  "init_simulation config sim g =
     (let n = cfg_num_robots config + num_backup config;
          robot_spacing = param_W (cfg_params config) / real_of_int (cfg_num_robots config);
          rs = fold (init_sim_robot config robot_spacing) [0 ..< nat n] (sim_robots sim)
      in generate_all_boxes config (sim\<lparr> sim_robots := rs, sim_num_robots := n \<rparr>) g)"

text \<open>
  The failure pass at the start of a run. \<open>sim_backup_scan\<close> is the inner loop that
  looks for a backup for the failed robot in slot \<open>i\<close>: it returns whether one was
  bound and the roster. \<open>failure_pass_robot\<close> is the body of the outer loop.
\<close>

fun sim_backup_scan :: "nat list \<Rightarrow> nat \<Rightarrow> Robot list \<Rightarrow> bool \<times> Robot list" where
  "sim_backup_scan [] i rs = (False, rs)"
| "sim_backup_scan (j # js) i rs =
     (if is_backup (rs ! j) \<and> robot_state (rs ! j) = ROBOT_STATE_DISABLED
      then (True, rs[j := (rs ! j)\<lparr> robot_state := ROBOT_STATE_BACKUP,
                                    replacing_robot := robot_id (rs ! i),
                                    axis_position := axis_position (rs ! i) \<rparr>])
      else sim_backup_scan js i rs)"

definition failure_pass_robot ::
  "SimulationConfig \<Rightarrow> int \<Rightarrow> nat \<Rightarrow> Robot list \<times> SimulationResult \<times> rng \<Rightarrow> Robot list \<times> SimulationResult \<times> rng" where
  "failure_pass_robot config n i s =
     (case s of (rs, result, g) \<Rightarrow>
        if is_backup (rs ! i) then (rs, result, g)
        else case rand g of
          (v, g') \<Rightarrow>
            let r = real_of_int v / real_of_int RAND_MAX in
            if r < failure_prob config then
              (let rs1 = rs[i := (rs ! i)\<lparr> has_failed := True, robot_state := ROBOT_STATE_FAILED \<rparr>];
                   result1 = result\<lparr> robot_failures := robot_failures result + 1 \<rparr>
               in case sim_backup_scan [nat (cfg_num_robots config) ..< nat n] i rs1 of
                    (bound, rs2) \<Rightarrow>
                      (rs2,
                       (if bound then result1\<lparr> backup_activations := backup_activations result1 + 1 \<rparr>
                        else result1),
                       g'))
            else (rs, result, g'))"

definition failure_pass ::
  "SimulationConfig \<Rightarrow> int \<Rightarrow> Robot list \<times> SimulationResult \<times> rng \<Rightarrow> Robot list \<times> SimulationResult \<times> rng" where
  "failure_pass config n s =
     (if failure_prob config > 0
      then fold (failure_pass_robot config n) [0 ..< nat (cfg_num_robots config)] s
      else s)"

text \<open>
  Labelling of one box. \<open>label_items\<close> is the loop
  \<open>for (i = 0; i < num_mangos && labeled_by_this_robot < mangos_per_station; i++)\<close>
  of one robot; it returns the robot's count for this box, the robot and the box.
\<close>

fun label_items :: "nat list \<Rightarrow> int \<Rightarrow> int \<Rightarrow> Robot \<Rightarrow> Box \<Rightarrow> int \<times> Robot \<times> Box" where
  "label_items [] cnt mps robot box = (cnt, robot, box)"
| "label_items (i # is) cnt mps robot box =
     (if cnt < mps then
        (if mango_state (mangos box ! i) = MANGO_UNLABELED
         then label_items is (cnt + 1) mps
                (robot\<lparr> labels_placed := labels_placed robot + 1 \<rparr>)
                (box\<lparr> mangos := (mangos box)[i := (mangos box ! i)\<lparr> mango_state := MANGO_LABELED,
                                                     labeled_by_robot := robot_id robot \<rparr>],
                      labeled_count := labeled_count box + 1 \<rparr>)
         else label_items is cnt mps robot box)
      else (cnt, robot, box))"

text \<open>
  \<open>visit_robots\<close> is the loop over the robots for one box: a robot that is Disabled
  or has failed is skipped, any other labels its share, and the loop stops as soon as
  the box is complete. The first component of the result lists the slots the loop has
  visited, in order.
\<close>

fun visit_robots :: "nat list \<Rightarrow> int \<Rightarrow> Robot list \<Rightarrow> Box \<Rightarrow> nat list \<times> Robot list \<times> Box" where
  "visit_robots [] mps rs box = ([], rs, box)"
| "visit_robots (k # ks) mps rs box =
     (if robot_state (rs ! k) = ROBOT_STATE_DISABLED \<or> has_failed (rs ! k)
      then (case visit_robots ks mps rs box of (vis, rs', box') \<Rightarrow> (k # vis, rs', box'))
      else
        case label_items [0 ..< nat (num_mangos box)] 0 mps (rs ! k) box of
          (cnt, robot', box1) \<Rightarrow>
            if labeled_count box1 \<ge> num_mangos box1 then ([k], rs[k := robot'], box1)
            else (case visit_robots ks mps (rs[k := robot']) box1 of
                    (vis, rs', box') \<Rightarrow> (k # vis, rs', box')))"

text \<open>The body of the loop over the boxes, for box \<open>b\<close>.\<close>

definition process_box ::
  "SimulationConfig \<Rightarrow> real \<Rightarrow> nat \<Rightarrow> simulator \<times> SimulationResult \<Rightarrow> simulator \<times> SimulationResult" where
  "process_box config effective_time b s =
     (case s of (sim, result) \<Rightarrow>
        let box = sim_boxes sim ! b;
            result1 = result\<lparr> total_mangos := total_mangos result + num_mangos box \<rparr>;
            mps = mangos_per_station (cfg_params config) effective_time
        in case visit_robots [0 ..< nat (sim_num_robots sim)] mps (sim_robots sim) box of
             (vis, rs', box') \<Rightarrow>
               (sim\<lparr> sim_robots := rs', sim_boxes := (sim_boxes sim)[b := box'] \<rparr>,
                result1\<lparr> labeled_mangos := labeled_mangos result1 + labeled_count box',
                         missed_mangos := missed_mangos result1 + (num_mangos box' - labeled_count box') \<rparr>))"

definition zero_result :: SimulationResult where
  "zero_result = \<lparr> total_mangos = 0, labeled_mangos = 0, missed_mangos = 0, robot_failures = 0,
                    backup_activations = 0, total_time = 0, efficiency = 0,
                    labels_per_robot = replicate 32 0 \<rparr>"

text \<open>
  \<open>run_single_simulation\<close>; \<open>start_time\<close> and \<open>end_time\<close> are the two clock
  readings. The result is the returned record, the globals after the run, and the rest
  of the random stream.
\<close>

definition run_single_simulation ::
  "SimulationConfig \<Rightarrow> real \<Rightarrow> real \<Rightarrow> simulator \<Rightarrow> rng \<Rightarrow> SimulationResult \<times> simulator \<times> rng" where
  "run_single_simulation config start_time end_time sim g =
     (case init_simulation config sim g of
        (sim1, warned_all, g1) \<Rightarrow>
          case failure_pass config (sim_num_robots sim1) (sim_robots sim1, zero_result, g1) of
            (rs2, result2, g2) \<Rightarrow>
              let robot_spacing = param_W (cfg_params config) / real_of_int (cfg_num_robots config);
                  effective_time = robot_spacing / param_X (cfg_params config)
              in case fold (process_box config effective_time) [0 ..< nat (sim_box_count sim1)]
                           (sim1\<lparr> sim_robots := rs2 \<rparr>, result2) of
                   (sim3, result3) \<Rightarrow>
                     let result4 = result3\<lparr> total_time := end_time - start_time,
                                             efficiency := (if total_mangos result3 > 0
                                                            then 100 * real_of_int (labeled_mangos result3)
                                                                   / real_of_int (total_mangos result3)
                                                            else 0) \<rparr>;
                         result5 = result4\<lparr> labels_per_robot :=
                                      fold (\<lambda>i l. l[i := labels_placed (sim_robots sim3 ! i)])
                                           [0 ..< nat (sim_num_robots sim3)] (labels_per_robot result4) \<rparr>
                     in (result5, sim3, g2))"

text \<open>The simulator's globals at program start (zero-initialised static arrays).\<close>

definition cleared_box :: Box where
  "cleared_box = \<lparr> box_id = 0, num_mangos = 0, mangos = replicate 100 cleared_mango,
                    position = 0, entry_time = 0, labeled_count = 0, completed = False \<rparr>"

definition start_simulator :: simulator where
  "start_simulator = \<lparr> sim_robots = replicate 32 zero_robot, sim_num_robots = 0,
                        sim_boxes = replicate 50 cleared_box, sim_box_count = 0 \<rparr>"

text \<open>The test of the robot loop: a robot takes part unless it is Disabled or has failed.\<close>

definition robot_takes_part :: "Robot \<Rightarrow> bool" where
  "robot_takes_part r \<longleftrightarrow> \<not> (robot_state r = ROBOT_STATE_DISABLED \<or> has_failed r)"

text \<open>
  A box whose first \<open>L\<close> items are Labeled and whose other items are Unclaimed, with
  \<open>labeled_count = L\<close>. A box as generated is of this form with \<open>L = 0\<close>.
\<close>

definition labeled_prefix :: "Box \<Rightarrow> nat \<Rightarrow> bool" where
  "labeled_prefix box L \<longleftrightarrow>
     0 \<le> num_mangos box \<and> nat (num_mangos box) \<le> length (mangos box) \<and>
     L \<le> nat (num_mangos box) \<and> labeled_count box = int L \<and>
     (\<forall>i < nat (num_mangos box).
        mango_state (mangos box ! i) = (if i < L then MANGO_LABELED else MANGO_UNLABELED))"

text \<open>The three components of the result of the robot loop for one box.\<close>

definition visited_robots :: "int \<Rightarrow> int \<Rightarrow> Robot list \<Rightarrow> Box \<Rightarrow> nat list" where
  "visited_robots nr mps rs box = fst (visit_robots [0 ..< nat nr] mps rs box)"

definition robots_after :: "int \<Rightarrow> int \<Rightarrow> Robot list \<Rightarrow> Box \<Rightarrow> Robot list" where
  "robots_after nr mps rs box = fst (snd (visit_robots [0 ..< nat nr] mps rs box))"

definition box_after :: "int \<Rightarrow> int \<Rightarrow> Robot list \<Rightarrow> Box \<Rightarrow> Box" where
  "box_after nr mps rs box = snd (snd (visit_robots [0 ..< nat nr] mps rs box))"

text \<open>The number of robots among the slots \<open>ks\<close> that take part.\<close>

definition count_taking_part :: "Robot list \<Rightarrow> nat list \<Rightarrow> int" where
  "count_taking_part rs ks = int (length (filter (\<lambda>k. robot_takes_part (rs ! k)) ks))"

text \<open>
  \<open>rng_suffix g' g\<close>: the stream \<open>g'\<close> is what is left of \<open>g\<close> after some number of
  calls of \<open>rand()\<close>.
\<close>

definition rng_suffix :: "rng \<Rightarrow> rng \<Rightarrow> bool" where
  "rng_suffix g' g \<longleftrightarrow> (\<exists>m. g' = (\<lambda>k. g (k + m)))"


definition failing_config :: SimulationConfig where
  "failing_config = \<lparr> cfg_params = default_params\<lparr> param_B := 1, robot_spacing := 300 / 4 \<rparr>,
                       num_boxes = 2, cfg_num_robots = 3, num_backup = 0, failure_prob = 1,
                       verbose = False \<rparr>"

text \<open>
  The failure checks of a run of the live controller, in the order in which the robot
  threads make them: each entry gives the slot of the robot and the value \<open>rand()\<close>
  returns to it. \<open>roster_b1\<close> is the roster of two main robots without backups when
  the failure probability \<open>B\<close> is 1.
\<close>

definition failure_checks :: "(nat \<times> int) list \<Rightarrow> controller \<Rightarrow> controller" where
  "failure_checks cs st = fold (\<lambda>c st. snd (check_robot_failure (fst c) (snd c) st)) cs st"

definition roster_b1 :: controller where
  "roster_b1 = snd (init_robots 2 0 (start_controller (default_params\<lparr> param_B := 1 \<rparr>)))"

text \<open>Every value of the stream lies in \<open>[0, RAND_MAX)\<close>: no draw returns \<open>RAND_MAX\<close> itself.\<close>

definition rng_below :: "rng \<Rightarrow> bool" where
  "rng_below g \<longleftrightarrow> (\<forall>k. 0 \<le> g k \<and> g k < RAND_MAX)"


section \<open>Item histories in the three execution models\<close>




subsection \<open>Live controller (src/robot\_controller.c)\<close>





subsection \<open>Analysis simulation (src/analysis.c)\<close>

text \<open>
  The scan of \<open>robot_thread\<close> for the nearest Unclaimed item of a box; the minimum
  distance starts as \<open>INFINITY\<close> (\<open>None\<close>), which every distance is below.
\<close>

fun nearest_unlabeled :: "Box \<Rightarrow> nat list \<Rightarrow> int \<Rightarrow> real option \<Rightarrow> int" where
  "nearest_unlabeled box [] target min_dist = target"
| "nearest_unlabeled box (i # is) target min_dist =
     (if mango_state (mangos box ! i) = MANGO_UNLABELED then
        (let dist = distance 0 0 (mango_x (mangos box ! i)) (mango_y (mangos box ! i)) in
         if (case min_dist of None \<Rightarrow> True | Some m \<Rightarrow> dist < m)
         then nearest_unlabeled box is (int i) (Some dist)
         else nearest_unlabeled box is target min_dist)
      else nearest_unlabeled box is target min_dist)"

text \<open>
  The first critical section of the labelling loop: scan, and mark the item found as
  Claimed. The second one: mark the item Labeled, record the robot, count the label.
\<close>

definition scan_and_claim :: "Box \<Rightarrow> int \<times> Box" where
  "scan_and_claim box =
     (let target = nearest_unlabeled box [0 ..< nat (num_mangos box)] (- 1) None in
      if target \<ge> 0
      then (target, box\<lparr> mangos := (mangos box)[nat target :=
                            (mangos box ! nat target)\<lparr> mango_state := MANGO_BEING_LABELED \<rparr>] \<rparr>)
      else (target, box))"








text \<open>
  \<open>N\<close> threads of the analysis simulation running the first critical section on the
  same box one after the other, in the order in which they take \<open>g_sim_mutex\<close>; the
  result lists the targets they obtain (\<open>-1\<close> when the scan finds nothing).
\<close>

fun scan_attempts :: "nat \<Rightarrow> Box \<Rightarrow> int list \<times> Box" where
  "scan_attempts 0 box = ([], box)"
| "scan_attempts (Suc n) box =
     (case scan_and_claim box of
        (t, box') \<Rightarrow> (case scan_attempts n box' of (ts, box'') \<Rightarrow> (t # ts, box'')))"

text \<open>Item \<open>j\<close> is the only Unclaimed item of the box.\<close>

definition only_unclaimed :: "Box \<Rightarrow> nat \<Rightarrow> bool" where
  "only_unclaimed box j \<longleftrightarrow>
     nat (num_mangos box) \<le> length (mangos box) \<and> j < nat (num_mangos box) \<and>
     (\<forall>i \<in> set [0 ..< nat (num_mangos box)].
        (mango_state (mangos box ! i) = MANGO_UNLABELED) = (i = j))"

section \<open>Properties of the claim protocol\<close>

lemma try_claim_mango_result: "fst (try_claim_mango rid mid s) = 0 \<or> fst (try_claim_mango rid mid s) = - 1"
  by (simp add: try_claim_mango_def)

lemma try_claim_mango_fail_same: "fst (try_claim_mango rid mid s) \<noteq> 0 \<Longrightarrow> snd (try_claim_mango rid mid s) = s"
  by (auto simp add: try_claim_mango_def split: if_splits)

lemma try_claim_mango_success_iff:
  "fst (try_claim_mango rid mid s) = 0 \<longleftrightarrow>
     0 \<le> mid \<and> mid < MAX_MANGOS_PER_BOX \<and> item_state s (nat mid) = MANGO_UNLABELED"
  by (auto simp add: try_claim_mango_def item_state_def)

lemma try_claim_mango_success_state:
  assumes "wf_claim_state s" and "fst (try_claim_mango rid mid s) = 0"
  shows "item_state (snd (try_claim_mango rid mid s)) (nat mid) = MANGO_BEING_LABELED"
    and "mango_lock (snd (try_claim_mango rid mid s)) ! nat mid = rid"
    and "j \<noteq> nat mid \<Longrightarrow> mangos (g_current_box (snd (try_claim_mango rid mid s))) ! j = mangos (g_current_box s) ! j"
    and "j \<noteq> nat mid \<Longrightarrow> mango_lock (snd (try_claim_mango rid mid s)) ! j = mango_lock s ! j"
    and "wf_claim_state (snd (try_claim_mango rid mid s))"
  using assms
  by (auto simp add: try_claim_mango_def item_state_def wf_claim_state_def MAX_MANGOS_PER_BOX_def
      split: if_splits)

text \<open>
  C1. For every state of the current box and every item id, \<open>try_claim_mango\<close> returns
  success (\<open>0\<close>) exactly when the id names a slot of the box whose item is Unclaimed
  (\<open>MANGO_UNLABELED\<close>), and then that item is Claimed (\<open>MANGO_BEING_LABELED\<close>)
  afterwards; when it fails it returns \<open>-1\<close> and the whole state (every item with its
  state and owner field, and the lock table) is unchanged.
\<close>

theorem try_claim_mango_check_and_set:
  assumes "wf_claim_state s"
  shows "(fst (try_claim_mango rid mid s) = 0 \<longleftrightarrow>
            0 \<le> mid \<and> mid < MAX_MANGOS_PER_BOX \<and> item_state s (nat mid) = MANGO_UNLABELED)
       \<and> (fst (try_claim_mango rid mid s) = 0 \<longrightarrow>
            item_state s (nat mid) = MANGO_UNLABELED \<and>
            item_state (snd (try_claim_mango rid mid s)) (nat mid) = MANGO_BEING_LABELED)
       \<and> (fst (try_claim_mango rid mid s) \<noteq> 0 \<longrightarrow>
            fst (try_claim_mango rid mid s) = - 1 \<and> snd (try_claim_mango rid mid s) = s)"
proof -
  have a: "fst (try_claim_mango rid mid s) = 0 \<longleftrightarrow>
            0 \<le> mid \<and> mid < MAX_MANGOS_PER_BOX \<and> item_state s (nat mid) = MANGO_UNLABELED"
    by (rule try_claim_mango_success_iff)
  have b: "fst (try_claim_mango rid mid s) = 0 \<longrightarrow>
            item_state (snd (try_claim_mango rid mid s)) (nat mid) = MANGO_BEING_LABELED"
    using assms try_claim_mango_success_state(1) by blast
  have c: "fst (try_claim_mango rid mid s) \<noteq> 0 \<longrightarrow>
            fst (try_claim_mango rid mid s) = - 1 \<and> snd (try_claim_mango rid mid s) = s"
    using try_claim_mango_result [of rid mid s] try_claim_mango_fail_same [of rid mid s] by blast
  from a b c show ?thesis by blast
qed

theorem try_claim_mango_check_and_set_witness:
  "wf_claim_state (fresh_claim_state 3)
   \<and> fst (try_claim_mango 1 2 (fresh_claim_state 3)) = 0
   \<and> item_state (snd (try_claim_mango 1 2 (fresh_claim_state 3))) 2 = MANGO_BEING_LABELED
   \<and> fst (try_claim_mango 4 2 (snd (try_claim_mango 1 2 (fresh_claim_state 3)))) = - 1
   \<and> snd (try_claim_mango 4 2 (snd (try_claim_mango 1 2 (fresh_claim_state 3))))
       = snd (try_claim_mango 1 2 (fresh_claim_state 3))"
proof -
  have w: "wf_claim_state (fresh_claim_state 3)"
    by (simp add: wf_claim_state_def fresh_claim_state_def fresh_box_def MAX_MANGOS_PER_BOX_def)
  have u: "item_state (fresh_claim_state 3) (nat 2) = MANGO_UNLABELED"
    by (simp add: item_state_def fresh_claim_state_def fresh_box_def cleared_mango_def)
  have r: "(0::int) \<le> 2 \<and> 2 < MAX_MANGOS_PER_BOX"
    by (simp add: MAX_MANGOS_PER_BOX_def)
  have first: "fst (try_claim_mango 1 2 (fresh_claim_state 3)) = 0
      \<and> item_state (snd (try_claim_mango 1 2 (fresh_claim_state 3))) (nat 2) = MANGO_BEING_LABELED"
    using try_claim_mango_check_and_set [OF w, of 1 2] u r by blast
  have w': "wf_claim_state (snd (try_claim_mango 1 2 (fresh_claim_state 3)))"
    using try_claim_mango_success_state(5) [OF w] first by blast
  have second: "fst (try_claim_mango 4 2 (snd (try_claim_mango 1 2 (fresh_claim_state 3)))) = - 1
      \<and> snd (try_claim_mango 4 2 (snd (try_claim_mango 1 2 (fresh_claim_state 3))))
          = snd (try_claim_mango 1 2 (fresh_claim_state 3))"
    using try_claim_mango_check_and_set [OF w', of 4 2] first by simp
  from w first second show ?thesis by simp
qed

text \<open>
  C10. For every robot id and every item id outside \<open>[0, MAX_MANGOS_PER_BOX)\<close>,
  \<open>try_claim_mango\<close> returns failure and the state is returned as it was; the
  result does not depend on the state (no item state and no lock entry is read), and
  no well-formedness of the state is needed: the operation is total.
\<close>

theorem try_claim_mango_out_of_range:
  "mid < 0 \<or> MAX_MANGOS_PER_BOX \<le> mid \<Longrightarrow>
     try_claim_mango rid mid s = (- 1, s)
     \<and> fst (try_claim_mango rid mid s') = fst (try_claim_mango rid mid s)"
  by (auto simp add: try_claim_mango_def)

theorem try_claim_mango_out_of_range_witness:
  "((100::int) < 0 \<or> MAX_MANGOS_PER_BOX \<le> 100)
   \<and> try_claim_mango 7 100 (fresh_claim_state 3) = (- 1, fresh_claim_state 3)
   \<and> ((- 1::int) < 0 \<or> MAX_MANGOS_PER_BOX \<le> - 1)
   \<and> try_claim_mango 7 (- 1) (fresh_claim_state 3) = (- 1, fresh_claim_state 3)"
proof -
  have a: "(100::int) < 0 \<or> MAX_MANGOS_PER_BOX \<le> 100"
    by (simp add: MAX_MANGOS_PER_BOX_def)
  have b: "(- 1::int) < 0 \<or> MAX_MANGOS_PER_BOX \<le> - 1"
    by simp
  show ?thesis
    using a b try_claim_mango_out_of_range [OF a, of 7 "fresh_claim_state 3" "fresh_claim_state 3"]
      try_claim_mango_out_of_range [OF b, of 7 "fresh_claim_state 3" "fresh_claim_state 3"]
    by simp
qed

lemma claim_attempts_length: "length (fst (claim_attempts rs mid s)) = length rs"
  by (induction rs arbitrary: s) (simp_all add: split_beta)

lemma claim_attempts_taken:
  "item_state s (nat mid) \<noteq> MANGO_UNLABELED \<Longrightarrow>
     claim_attempts rs mid s = (replicate (length rs) (- 1), s)"
proof (induction rs)
  case Nil
  show ?case by simp
next
  case (Cons r rs)
  have "try_claim_mango r mid s = (- 1, s)"
    using Cons.prems by (simp add: try_claim_mango_def item_state_def)
  with Cons show ?case by simp
qed

lemma claim_attempts_first_wins:
  assumes "wf_claim_state s" and "0 \<le> mid" and "mid < MAX_MANGOS_PER_BOX"
    and "item_state s (nat mid) = MANGO_UNLABELED"
  shows "claim_attempts (r # rs) mid s =
           (0 # replicate (length rs) (- 1), snd (try_claim_mango r mid s))"
proof -
  have ok: "fst (try_claim_mango r mid s) = 0"
    using assms by (simp add: try_claim_mango_success_iff)
  then have "item_state (snd (try_claim_mango r mid s)) (nat mid) = MANGO_BEING_LABELED"
    using assms(1) try_claim_mango_success_state(1) by blast
  then have "claim_attempts rs mid (snd (try_claim_mango r mid s)) =
               (replicate (length rs) (- 1), snd (try_claim_mango r mid s))"
    by (simp add: claim_attempts_taken)
  with ok show ?thesis
    by (simp add: split_beta)
qed

lemma count_list_replicate_other: "a \<noteq> b \<Longrightarrow> count_list (replicate n a) b = 0"
  by (induction n) auto

lemma count_list_replicate_same: "count_list (replicate n a) a = n"
  by (induction n) auto

lemma nearest_unlabeled_skip:
  "\<forall>i \<in> set is. mango_state (mangos box ! i) \<noteq> MANGO_UNLABELED \<Longrightarrow>
     nearest_unlabeled box is t md = t"
  by (induction "is") simp_all

lemma nearest_unlabeled_single:
  assumes "\<forall>i \<in> set pre. mango_state (mangos box ! i) \<noteq> MANGO_UNLABELED"
    and "mango_state (mangos box ! j) = MANGO_UNLABELED"
    and "\<forall>i \<in> set post. mango_state (mangos box ! i) \<noteq> MANGO_UNLABELED"
  shows "nearest_unlabeled box (pre @ j # post) t None = int j"
  using assms(1)
proof (induction pre)
  case Nil
  show ?case using assms(2,3) by (simp add: Let_def nearest_unlabeled_skip)
next
  case (Cons a pre)
  then show ?case by simp
qed

lemma upt_split_at:
  assumes "a \<le> i" and "i < b"
  shows "[a ..< b] = [a ..< i] @ i # [Suc i ..< b]"
proof -
  have "[a ..< i + (b - i)] = [a ..< i] @ [i ..< i + (b - i)]"
    using assms(1) by (rule upt_add_eq_append)
  moreover have "i + (b - i) = b"
    using assms(2) by simp
  moreover have "[i ..< b] = i # [Suc i ..< b]"
    using assms(2) by (rule upt_conv_Cons)
  ultimately show ?thesis by simp
qed

lemma scan_and_claim_single:
  assumes "only_unclaimed box j"
  shows "scan_and_claim box =
           (int j, box\<lparr> mangos := (mangos box)[j := (mangos box ! j)\<lparr> mango_state := MANGO_BEING_LABELED \<rparr>] \<rparr>)"
proof -
  let ?n = "nat (num_mangos box)"
  have j: "j < ?n" and only: "\<forall>i \<in> set [0 ..< ?n]. (mango_state (mangos box ! i) = MANGO_UNLABELED) = (i = j)"
    using assms by (simp_all add: only_unclaimed_def)
  have split: "[0 ..< ?n] = [0 ..< j] @ j # [Suc j ..< ?n]"
    by (rule upt_split_at) (use j in simp_all)
  have "nearest_unlabeled box ([0 ..< j] @ j # [Suc j ..< ?n]) (- 1) None = int j"
    by (rule nearest_unlabeled_single) (use only j in auto)
  then have "nearest_unlabeled box [0 ..< ?n] (- 1) None = int j"
    using split by simp
  then show ?thesis by (simp add: scan_and_claim_def)
qed

lemma scan_and_claim_nothing:
  assumes "\<forall>i \<in> set [0 ..< nat (num_mangos box)]. mango_state (mangos box ! i) \<noteq> MANGO_UNLABELED"
  shows "scan_and_claim box = (- 1, box)"
  using nearest_unlabeled_skip [OF assms, of "- 1" None] by (simp add: scan_and_claim_def)

lemma scan_attempts_nothing:
  assumes "\<forall>i \<in> set [0 ..< nat (num_mangos box)]. mango_state (mangos box ! i) \<noteq> MANGO_UNLABELED"
  shows "scan_attempts n box = (replicate n (- 1), box)"
  by (induction n) (simp_all add: scan_and_claim_nothing [OF assms])

text \<open>
  C2. Let \<open>N \<ge> 1\<close> agents run the claim protocol on one Unclaimed item, their critical
  sections serialised by the claim mutex in any order. In the live controller (order
  \<open>rs\<close> of the calls of \<open>try_claim_mango\<close>) exactly one attempt returns success and
  the other \<open>N - 1\<close> return failure; the winner is the agent that takes the mutex
  first, and it is recorded in the lock table. In the analysis simulation (\<open>N\<close>
  threads scanning a box whose only Unclaimed item is \<open>j\<close>) exactly one thread obtains
  the item and the other \<open>N - 1\<close> obtain none. Hence no two agents both claim the
  item successfully.
\<close>

theorem claim_attempts_exactly_one:
  assumes "wf_claim_state s" and "0 \<le> mid" and "mid < MAX_MANGOS_PER_BOX"
    and "item_state s (nat mid) = MANGO_UNLABELED" and "rs \<noteq> []"
    and "only_unclaimed box j" and "0 < N"
  shows "count_list (fst (claim_attempts rs mid s)) 0 = 1
       \<and> count_list (fst (claim_attempts rs mid s)) (- 1) = length rs - 1
       \<and> length (fst (claim_attempts rs mid s)) = length rs
       \<and> fst (claim_attempts rs mid s) = 0 # replicate (length rs - 1) (- 1)
       \<and> mango_lock (snd (claim_attempts rs mid s)) ! nat mid = hd rs
       \<and> item_state (snd (claim_attempts rs mid s)) (nat mid) = MANGO_BEING_LABELED
       \<and> fst (scan_attempts N box) = int j # replicate (N - 1) (- 1)
       \<and> length (filter (\<lambda>t. 0 \<le> t) (fst (scan_attempts N box))) = 1
       \<and> mango_state (mangos (snd (scan_attempts N box)) ! j) = MANGO_BEING_LABELED"
proof -
  from assms(5) obtain r rs' where rs: "rs = r # rs'"
    by (cases rs) auto
  have run: "claim_attempts (r # rs') mid s =
               (0 # replicate (length rs') (- 1), snd (try_claim_mango r mid s))"
    using assms(1-4) by (rule claim_attempts_first_wins)
  have ok: "fst (try_claim_mango r mid s) = 0"
    using assms by (simp add: try_claim_mango_success_iff)
  have lock: "mango_lock (snd (try_claim_mango r mid s)) ! nat mid = r"
    using assms(1) ok by (rule try_claim_mango_success_state(2))
  have st: "item_state (snd (try_claim_mango r mid s)) (nat mid) = MANGO_BEING_LABELED"
    using assms(1) ok by (rule try_claim_mango_success_state(1))
  have c0: "count_list (replicate (length rs') (- 1 :: int)) 0 = 0"
    by (rule count_list_replicate_other) simp
  have live: "count_list (fst (claim_attempts rs mid s)) 0 = 1
       \<and> count_list (fst (claim_attempts rs mid s)) (- 1) = length rs - 1
       \<and> length (fst (claim_attempts rs mid s)) = length rs
       \<and> fst (claim_attempts rs mid s) = 0 # replicate (length rs - 1) (- 1)
       \<and> mango_lock (snd (claim_attempts rs mid s)) ! nat mid = hd rs
       \<and> item_state (snd (claim_attempts rs mid s)) (nat mid) = MANGO_BEING_LABELED"
    using run lock st c0 by (simp add: rs count_list_replicate_same)
  from assms(7) obtain n where N: "N = Suc n"
    by (cases N) auto
  define box1 where "box1 = box\<lparr> mangos := (mangos box)[j := (mangos box ! j)\<lparr> mango_state := MANGO_BEING_LABELED \<rparr>] \<rparr>"
  have first: "scan_and_claim box = (int j, box1)"
    unfolding box1_def using assms(6) by (rule scan_and_claim_single)
  have jn: "j < nat (num_mangos box)" and nlen: "nat (num_mangos box) \<le> length (mangos box)"
    and only: "\<forall>i \<in> set [0 ..< nat (num_mangos box)]. (mango_state (mangos box ! i) = MANGO_UNLABELED) = (i = j)"
    using assms(6) by (simp_all add: only_unclaimed_def)
  have jlen: "j < length (mangos box)" using jn nlen by simp
  have none: "\<forall>i \<in> set [0 ..< nat (num_mangos box1)]. mango_state (mangos box1 ! i) \<noteq> MANGO_UNLABELED"
  proof
    fix i assume "i \<in> set [0 ..< nat (num_mangos box1)]"
    then have i: "i \<in> set [0 ..< nat (num_mangos box)]" by (simp add: box1_def)
    show "mango_state (mangos box1 ! i) \<noteq> MANGO_UNLABELED"
    proof (cases "i = j")
      case True
      then show ?thesis using jlen by (simp add: box1_def)
    next
      case False
      then show ?thesis using only i by (simp add: box1_def)
    qed
  qed
  have later: "scan_attempts n box1 = (replicate n (- 1), box1)"
    using none by (rule scan_attempts_nothing)
  have flt: "filter (\<lambda>t. 0 \<le> t) (replicate n (- 1 :: int)) = []"
    by simp
  have ana: "fst (scan_attempts N box) = int j # replicate (N - 1) (- 1)
       \<and> length (filter (\<lambda>t. 0 \<le> t) (fst (scan_attempts N box))) = 1
       \<and> mango_state (mangos (snd (scan_attempts N box)) ! j) = MANGO_BEING_LABELED"
    unfolding N using first later flt jlen by (simp add: box1_def)
  from live ana show ?thesis by blast
qed

theorem claim_attempts_exactly_one_witness:
  "wf_claim_state (fresh_claim_state 3) \<and> (0::int) \<le> 2 \<and> 2 < MAX_MANGOS_PER_BOX
   \<and> item_state (fresh_claim_state 3) (nat 2) = MANGO_UNLABELED \<and> [5, 0, 3 :: int] \<noteq> []
   \<and> only_unclaimed (fresh_box 1) 0 \<and> (0::nat) < 3
   \<and> fst (claim_attempts [5, 0, 3] 2 (fresh_claim_state 3)) = [0, - 1, - 1]
   \<and> count_list (fst (claim_attempts [5, 0, 3] 2 (fresh_claim_state 3))) 0 = 1
   \<and> mango_lock (snd (claim_attempts [5, 0, 3] 2 (fresh_claim_state 3))) ! nat 2 = 5
   \<and> fst (scan_attempts 3 (fresh_box 1)) = [0, - 1, - 1]"
proof -
  have w: "wf_claim_state (fresh_claim_state 3)"
    by (simp add: wf_claim_state_def fresh_claim_state_def fresh_box_def MAX_MANGOS_PER_BOX_def)
  have u: "item_state (fresh_claim_state 3) (nat 2) = MANGO_UNLABELED"
    by (simp add: item_state_def fresh_claim_state_def fresh_box_def cleared_mango_def)
  have lo: "(0::int) \<le> 2" by simp
  have hi: "(2::int) < MAX_MANGOS_PER_BOX" by (simp add: MAX_MANGOS_PER_BOX_def)
  have ne: "[5, 0, 3 :: int] \<noteq> []" by simp
  have o: "only_unclaimed (fresh_box 1) 0"
    by (simp add: only_unclaimed_def fresh_box_def cleared_mango_def)
  have n: "(0::nat) < 3" by simp
  show ?thesis
    using w u lo hi o claim_attempts_exactly_one [OF w lo hi u ne o n]
    by (simp add: numeral_3_eq_3)
qed


section \<open>Properties of the backup manager\<close>





















section \<open>The time window of the live controller\<close>

text \<open>
  C7, evaluated for four main robots and one backup on a belt of length 300 moving at
  speed 10. The last main robot (slot 3) stands at 262.5, so its window to the far end
  of the belt is \<open>(300 - 262.5) / 10 = 3.75\<close>. \<open>calculate_effective_time\<close> compares
  \<open>robot_id + 1\<close> with \<open>g_num_robots\<close>, which counts the backup too, and so takes
  the axis position of the backup in slot 4 (still \<open>0\<close>) as the next axis: the window
  it returns is \<open>(0 - 262.5) / 10 = -26.25\<close>.
\<close>

theorem calculate_effective_time_last_robot_with_backup:
  "fst (init_robots 4 1 (start_controller default_params)) = 0
   \<and> axis_position (g_robots roster_4_1 ! 3) = 262.5
   \<and> (param_W (g_params roster_4_1) - axis_position (g_robots roster_4_1 ! 3))
        / param_X (g_params roster_4_1) = 3.75
   \<and> calculate_effective_time 3 roster_4_1 = - 26.25"
  by code_simp


text \<open>
  Without backups the window of every main robot is as intended: for four main robots
  the first three have the full spacing \<open>75 / 10\<close>, the last has the rest of the belt.
\<close>

lemma calculate_effective_time_without_backup:
  "calculate_effective_time 0 (snd (init_robots 4 0 (start_controller default_params))) = 7.5
   \<and> calculate_effective_time 1 (snd (init_robots 4 0 (start_controller default_params))) = 7.5
   \<and> calculate_effective_time 2 (snd (init_robots 4 0 (start_controller default_params))) = 7.5
   \<and> calculate_effective_time 3 (snd (init_robots 4 0 (start_controller default_params))) = 3.75"
  by code_simp


section \<open>The two capacity estimates\<close>







section \<open>Properties of the batch estimator's labelling pass\<close>

lemma label_items_full:
  "\<not> cnt < mps \<Longrightarrow> label_items is cnt mps robot box = (cnt, robot, box)"
  by (cases "is") simp_all

lemma label_items_append_skip:
  "\<forall>i \<in> set xs. mango_state (mangos box ! i) \<noteq> MANGO_UNLABELED \<Longrightarrow>
     label_items (xs @ ys) cnt mps robot box = label_items ys cnt mps robot box"
proof (induction xs)
  case Nil
  show ?case by simp
next
  case (Cons x xs)
  show ?case
  proof (cases "cnt < mps")
    case True
    with Cons show ?thesis by simp
  next
    case False
    then show ?thesis by (simp add: label_items_full)
  qed
qed

lemma label_items_fresh:
  assumes "n \<le> length (mangos box)"
    and "\<forall>i. a \<le> i \<and> i < n \<longrightarrow> mango_state (mangos box ! i) = MANGO_UNLABELED"
    and "cnt \<le> mps"
    and "label_items [a ..< n] cnt mps robot box = (cnt', robot', box')"
    and "k = min (n - a) (nat (mps - cnt))"
  shows "cnt' = cnt + int k
       \<and> robot' = robot\<lparr> labels_placed := labels_placed robot + int k \<rparr>
       \<and> labeled_count box' = labeled_count box + int k
       \<and> num_mangos box' = num_mangos box
       \<and> length (mangos box') = length (mangos box)
       \<and> (\<forall>i. a \<le> i \<and> i < a + k \<longrightarrow>
             mango_state (mangos box' ! i) = MANGO_LABELED \<and>
             labeled_by_robot (mangos box' ! i) = robot_id robot)
       \<and> (\<forall>i. \<not> (a \<le> i \<and> i < a + k) \<longrightarrow> mangos box' ! i = mangos box ! i)"
  using assms
proof (induction "n - a" arbitrary: a cnt robot box k)
  case 0
  then have "[a ..< n] = []" by simp
  with 0 show ?case by simp
next
  case (Suc d)
  then have lt: "a < n" by linarith
  then have upt: "[a ..< n] = a # [Suc a ..< n]" by (rule upt_conv_Cons)
  show ?case
  proof (cases "cnt < mps")
    case False
    then have "label_items [a ..< n] cnt mps robot box = (cnt, robot, box)"
      by (rule label_items_full)
    moreover have "k = 0" using False Suc.prems(5) by simp
    ultimately show ?thesis using Suc.prems(4) by auto
  next
    case True
    define robot1 where "robot1 = robot\<lparr> labels_placed := labels_placed robot + 1 \<rparr>"
    define box1 where "box1 = box\<lparr> mangos := (mangos box)[a := (mangos box ! a)\<lparr> mango_state := MANGO_LABELED,
                                                     labeled_by_robot := robot_id robot \<rparr>],
                      labeled_count := labeled_count box + 1 \<rparr>"
    have here: "mango_state (mangos box ! a) = MANGO_UNLABELED"
      using Suc.prems(2) lt by simp
    have step: "label_items [Suc a ..< n] (cnt + 1) mps robot1 box1 = (cnt', robot', box')"
      using Suc.prems(4) True here unfolding upt robot1_def box1_def by simp
    have d: "d = n - Suc a" using Suc.hyps(2) by simp
    have len1: "n \<le> length (mangos box1)" using Suc.prems(1) by (simp add: box1_def)
    have un1: "\<forall>i. Suc a \<le> i \<and> i < n \<longrightarrow> mango_state (mangos box1 ! i) = MANGO_UNLABELED"
      using Suc.prems(2) by (simp add: box1_def)
    have c1: "cnt + 1 \<le> mps" using True by simp
    define k1 where "k1 = min (n - Suc a) (nat (mps - (cnt + 1)))"
    have k: "k = Suc k1"
      using Suc.prems(5) lt True unfolding k1_def by (simp add: min_def nat_diff_distrib) linarith
    note ih = Suc.hyps(1) [OF d len1 un1 c1 step k1_def]
    have alen: "a < length (mangos box)" using lt Suc.prems(1) by simp
    have p1: "cnt' = cnt + int k" using ih k by simp
    have p2: "robot' = robot\<lparr> labels_placed := labels_placed robot + int k \<rparr>"
      using ih k by (simp add: robot1_def)
    have p3: "labeled_count box' = labeled_count box + int k"
      using ih k by (simp add: box1_def)
    have p4: "num_mangos box' = num_mangos box" using ih by (simp add: box1_def)
    have p5: "length (mangos box') = length (mangos box)" using ih by (simp add: box1_def)
    have a_same: "mangos box' ! a = mangos box1 ! a"
      using ih by simp
    have p6: "\<forall>i. a \<le> i \<and> i < a + k \<longrightarrow>
             mango_state (mangos box' ! i) = MANGO_LABELED \<and>
             labeled_by_robot (mangos box' ! i) = robot_id robot"
    proof (intro allI impI)
      fix i assume i: "a \<le> i \<and> i < a + k"
      show "mango_state (mangos box' ! i) = MANGO_LABELED \<and>
             labeled_by_robot (mangos box' ! i) = robot_id robot"
      proof (cases "i = a")
        case True
        then show ?thesis using a_same alen by (simp add: box1_def)
      next
        case False
        then have "Suc a \<le> i \<and> i < Suc a + k1" using i k by simp
        then show ?thesis using ih by (simp add: robot1_def)
      qed
    qed
    have p7: "\<forall>i. \<not> (a \<le> i \<and> i < a + k) \<longrightarrow> mangos box' ! i = mangos box ! i"
    proof (intro allI impI)
      fix i assume i: "\<not> (a \<le> i \<and> i < a + k)"
      then have "i \<noteq> a" using k by auto
      moreover have "\<not> (Suc a \<le> i \<and> i < Suc a + k1)" using i k by auto
      ultimately show "mangos box' ! i = mangos box ! i"
        using ih by (simp add: box1_def)
    qed
    from p1 p2 p3 p4 p5 p6 p7 show ?thesis by blast
  qed
qed

lemma label_items_prefix:
  assumes "labeled_prefix box L" and "0 \<le> mps"
    and "label_items [0 ..< nat (num_mangos box)] 0 mps robot box = (cnt', robot', box')"
    and "k = min (nat (num_mangos box) - L) (nat mps)"
  shows "labeled_prefix box' (L + k)"
    and "num_mangos box' = num_mangos box"
    and "robot' = robot\<lparr> labels_placed := labels_placed robot + int k \<rparr>"
proof -
  let ?n = "nat (num_mangos box)"
  have Ln: "L \<le> ?n" and len: "?n \<le> length (mangos box)" and cnt: "labeled_count box = int L"
    and st: "\<forall>i < ?n. mango_state (mangos box ! i) = (if i < L then MANGO_LABELED else MANGO_UNLABELED)"
    and nn: "0 \<le> num_mangos box"
    using assms(1) by (simp_all add: labeled_prefix_def)
  have "[0 ..< L + (?n - L)] = [0 ..< L] @ [L ..< L + (?n - L)]"
    by (rule upt_add_eq_append) simp
  then have split: "[0 ..< ?n] = [0 ..< L] @ [L ..< ?n]"
    using Ln by simp
  have skip: "\<forall>i \<in> set [0 ..< L]. mango_state (mangos box ! i) \<noteq> MANGO_UNLABELED"
    using st Ln by auto
  have run: "label_items [L ..< ?n] 0 mps robot box = (cnt', robot', box')"
    using assms(3) unfolding split by (simp add: label_items_append_skip [OF skip])
  have un: "\<forall>i. L \<le> i \<and> i < ?n \<longrightarrow> mango_state (mangos box ! i) = MANGO_UNLABELED"
    using st by auto
  have k: "k = min (?n - L) (nat (mps - 0))"
    using assms(4) by simp
  note r = label_items_fresh [OF len un assms(2) run k]
  show "num_mangos box' = num_mangos box" using r by simp
  show "robot' = robot\<lparr> labels_placed := labels_placed robot + int k \<rparr>" using r by simp
  have kle: "L + k \<le> ?n" using assms(4) Ln by (auto simp add: min_def)
  have st': "\<forall>i < ?n. mango_state (mangos box' ! i) = (if i < L + k then MANGO_LABELED else MANGO_UNLABELED)"
  proof (intro allI impI)
    fix i assume i: "i < ?n"
    show "mango_state (mangos box' ! i) = (if i < L + k then MANGO_LABELED else MANGO_UNLABELED)"
    proof (cases "L \<le> i \<and> i < L + k")
      case True
      then show ?thesis using r by simp
    next
      case False
      then have "mangos box' ! i = mangos box ! i" using r by blast
      then show ?thesis using st i False by auto
    qed
  qed
  show "labeled_prefix box' (L + k)"
    unfolding labeled_prefix_def using r nn len kle cnt st' by simp
qed

lemma takes_part_update:
  "robot_takes_part (rs[k := (rs ! k)\<lparr> labels_placed := v \<rparr>] ! j) = robot_takes_part (rs ! j)"
proof (cases "k < length rs")
  case True
  then show ?thesis
    by (cases "j = k") (simp_all add: robot_takes_part_def)
next
  case False
  then show ?thesis by (simp add: list_update_beyond)
qed

lemma visit_robots_prefix:
  assumes "labeled_prefix box L" and "1 \<le> mps"
    and "visit_robots ks mps rs box = (vis, rs', box')"
  shows "\<exists>L'. labeled_prefix box' L' \<and> num_mangos box' = num_mangos box
           \<and> int L' = min (num_mangos box)
                        (int L + int (length (filter (\<lambda>k. robot_takes_part (rs ! k)) vis)) * mps)
           \<and> int L' = min (num_mangos box)
                        (int L + int (length (filter (\<lambda>k. robot_takes_part (rs ! k)) ks)) * mps)
           \<and> vis = take (length vis) ks"
  using assms
proof (induction ks arbitrary: rs box L vis rs' box')
  case Nil
  then have "box' = box" and "vis = []" by simp_all
  moreover have "int L \<le> num_mangos box"
    using Nil.prems(1) unfolding labeled_prefix_def by linarith
  ultimately show ?case using Nil.prems(1) by (intro exI [of _ L]) (simp add: min_def)
next
  case (Cons k ks)
  show ?case
  proof (cases "robot_takes_part (rs ! k)")
    case False
    then have skip: "robot_state (rs ! k) = ROBOT_STATE_DISABLED \<or> has_failed (rs ! k)"
      by (simp add: robot_takes_part_def)
    obtain vis0 rs0 box0 where rest: "visit_robots ks mps rs box = (vis0, rs0, box0)"
      by (cases "visit_robots ks mps rs box") auto
    have res: "vis = k # vis0" "rs' = rs0" "box' = box0"
      using Cons.prems(3) skip rest by simp_all
    from Cons.IH [OF Cons.prems(1,2) rest] obtain L' where
      "labeled_prefix box0 L' \<and> num_mangos box0 = num_mangos box
           \<and> int L' = min (num_mangos box)
                        (int L + int (length (filter (\<lambda>k. robot_takes_part (rs ! k)) vis0)) * mps)
           \<and> int L' = min (num_mangos box)
                        (int L + int (length (filter (\<lambda>k. robot_takes_part (rs ! k)) ks)) * mps)
           \<and> vis0 = take (length vis0) ks"
      by blast
    then show ?thesis
      using res False by (intro exI [of _ L']) simp
  next
    case True
    then have go: "\<not> (robot_state (rs ! k) = ROBOT_STATE_DISABLED \<or> has_failed (rs ! k))"
      by (simp add: robot_takes_part_def)
    obtain cnt1 robot1 box1 where lab:
      "label_items [0 ..< nat (num_mangos box)] 0 mps (rs ! k) box = (cnt1, robot1, box1)"
      by (cases "label_items [0 ..< nat (num_mangos box)] 0 mps (rs ! k) box") auto
    define kk where "kk = min (nat (num_mangos box) - L) (nat mps)"
    have mps0: "0 \<le> mps" using Cons.prems(2) by simp
    note li = label_items_prefix [OF Cons.prems(1) mps0 lab kk_def]
    have Ln: "int L \<le> num_mangos box" and nn: "0 \<le> num_mangos box"
      using Cons.prems(1) unfolding labeled_prefix_def by linarith+
    have cnt1: "labeled_count box1 = int (L + kk)"
      using li(1) by (simp add: labeled_prefix_def)
    have L1: "int (L + kk) = min (num_mangos box) (int L + mps)"
      using Ln nn Cons.prems(2) unfolding kk_def by (simp add: min_def) linarith
    show ?thesis
    proof (cases "labeled_count box1 \<ge> num_mangos box1")
      case True
      have res: "vis = [k]" "box' = box1"
        using Cons.prems(3) go lab True by simp_all
      have full: "int (L + kk) = num_mangos box"
        using True cnt1 li(2) L1 by simp
      then have reach: "num_mangos box \<le> int L + mps"
        using L1 by simp
      have "mps \<le> int (Suc (length (filter (\<lambda>k. robot_takes_part (rs ! k)) ks))) * mps"
        using Cons.prems(2) by (simp add: algebra_simps)
      then have all: "num_mangos box \<le> int L + int (Suc (length (filter (\<lambda>k. robot_takes_part (rs ! k)) ks))) * mps"
        using reach by linarith
      show ?thesis
        using res li(1,2) full reach all \<open>robot_takes_part (rs ! k)\<close>
        by (intro exI [of _ "L + kk"]) (simp add: min_def)
    next
      case False
      obtain vis0 rs0 box0 where rest:
        "visit_robots ks mps (rs[k := robot1]) box1 = (vis0, rs0, box0)"
        by (cases "visit_robots ks mps (rs[k := robot1]) box1") auto
      have res: "vis = k # vis0" "rs' = rs0" "box' = box0"
        using Cons.prems(3) go lab False rest by simp_all
      have notfull: "int (L + kk) = int L + mps"
        using False cnt1 li(2) L1 by (simp add: min_def split: if_splits)
      have same: "\<And>j. robot_takes_part (rs[k := robot1] ! j) = robot_takes_part (rs ! j)"
        unfolding li(3) by (rule takes_part_update)
      from Cons.IH [OF li(1) Cons.prems(2) rest] obtain L' where ih:
        "labeled_prefix box0 L'" "num_mangos box0 = num_mangos box1"
        "int L' = min (num_mangos box1)
                        (int (L + kk) + int (length (filter (\<lambda>k. robot_takes_part (rs ! k)) vis0)) * mps)"
        "int L' = min (num_mangos box1)
                        (int (L + kk) + int (length (filter (\<lambda>k. robot_takes_part (rs ! k)) ks)) * mps)"
        "vis0 = take (length vis0) ks"
        unfolding same by blast
      have a: "int (L + kk) + int (length (filter (\<lambda>k. robot_takes_part (rs ! k)) vis0)) * mps
             = int L + int (Suc (length (filter (\<lambda>k. robot_takes_part (rs ! k)) vis0))) * mps"
        unfolding notfull by (simp add: algebra_simps)
      have b: "int (L + kk) + int (length (filter (\<lambda>k. robot_takes_part (rs ! k)) ks)) * mps
             = int L + int (Suc (length (filter (\<lambda>k. robot_takes_part (rs ! k)) ks))) * mps"
        unfolding notfull by (simp add: algebra_simps)
      show ?thesis
        using res ih(1,2,5) ih(3) [unfolded a] ih(4) [unfolded b] li(2) \<open>robot_takes_part (rs ! k)\<close>
        by (intro exI [of _ L']) simp
    qed
  qed
qed

lemma visit_robots_labels:
  assumes "labeled_prefix box L" and "1 \<le> mps" and "distinct ks" and "\<forall>k \<in> set ks. k < length rs"
    and "visit_robots ks mps rs box = (vis, rs', box')"
  shows "length rs' = length rs
       \<and> (\<forall>j. (j \<notin> set ks \<longrightarrow> rs' ! j = rs ! j)
              \<and> (\<exists>d. 0 \<le> d \<and> d \<le> mps \<and> rs' ! j = (rs ! j)\<lparr> labels_placed := labels_placed (rs ! j) + d \<rparr>
                     \<and> (\<not> robot_takes_part (rs ! j) \<longrightarrow> d = 0)))"
  using assms
proof (induction ks arbitrary: rs box L vis rs' box')
  case Nil
  then have "rs' = rs" by simp
  then show ?case using Nil.prems(2) by (auto intro: exI [of _ 0])
next
  case (Cons k ks)
  have dk: "distinct ks" and kn: "k \<notin> set ks" and klen: "k < length rs"
    and inr: "\<forall>k \<in> set ks. k < length rs"
    using Cons.prems(3,4) by simp_all
  show ?case
  proof (cases "robot_takes_part (rs ! k)")
    case False
    then have skip: "robot_state (rs ! k) = ROBOT_STATE_DISABLED \<or> has_failed (rs ! k)"
      by (simp add: robot_takes_part_def)
    obtain vis0 rs0 box0 where rest: "visit_robots ks mps rs box = (vis0, rs0, box0)"
      by (cases "visit_robots ks mps rs box") auto
    have res: "rs' = rs0"
      using Cons.prems(5) skip rest by simp
    note ih = Cons.IH [OF Cons.prems(1,2) dk inr rest]
    show ?thesis unfolding res using ih by auto
  next
    case True
    then have go: "\<not> (robot_state (rs ! k) = ROBOT_STATE_DISABLED \<or> has_failed (rs ! k))"
      by (simp add: robot_takes_part_def)
    obtain cnt1 robot1 box1 where lab:
      "label_items [0 ..< nat (num_mangos box)] 0 mps (rs ! k) box = (cnt1, robot1, box1)"
      by (cases "label_items [0 ..< nat (num_mangos box)] 0 mps (rs ! k) box") auto
    define kk where "kk = min (nat (num_mangos box) - L) (nat mps)"
    have mps0: "0 \<le> mps" using Cons.prems(2) by simp
    note li = label_items_prefix [OF Cons.prems(1) mps0 lab kk_def]
    have "kk \<le> nat mps" unfolding kk_def by simp
    then have kkle: "int kk \<le> mps" using mps0 by linarith
    have upd: "\<forall>j. (j \<noteq> k \<longrightarrow> rs[k := robot1] ! j = rs ! j)
              \<and> (\<exists>d. 0 \<le> d \<and> d \<le> mps \<and> rs[k := robot1] ! j = (rs ! j)\<lparr> labels_placed := labels_placed (rs ! j) + d \<rparr>
                     \<and> (\<not> robot_takes_part (rs ! j) \<longrightarrow> d = 0))"
    proof
      fix j
      show "(j \<noteq> k \<longrightarrow> rs[k := robot1] ! j = rs ! j)
              \<and> (\<exists>d. 0 \<le> d \<and> d \<le> mps \<and> rs[k := robot1] ! j = (rs ! j)\<lparr> labels_placed := labels_placed (rs ! j) + d \<rparr>
                     \<and> (\<not> robot_takes_part (rs ! j) \<longrightarrow> d = 0))"
      proof (cases "j = k")
        case True
        have "rs[k := robot1] ! j = (rs ! j)\<lparr> labels_placed := labels_placed (rs ! j) + int kk \<rparr>"
          using True klen li(3) by simp
        then show ?thesis using True kkle \<open>robot_takes_part (rs ! k)\<close> by (auto intro: exI [of _ "int kk"])
      next
        case False
        then show ?thesis using mps0 by (auto intro: exI [of _ 0])
      qed
    qed
    show ?thesis
    proof (cases "labeled_count box1 \<ge> num_mangos box1")
      case True
      have res: "rs' = rs[k := robot1]"
        using Cons.prems(5) go lab True by simp
      show ?thesis unfolding res using upd by auto
    next
      case False
      obtain vis0 rs0 box0 where rest:
        "visit_robots ks mps (rs[k := robot1]) box1 = (vis0, rs0, box0)"
        by (cases "visit_robots ks mps (rs[k := robot1]) box1") auto
      have res: "rs' = rs0"
        using Cons.prems(5) go lab False rest by simp
      have inr1: "\<forall>k \<in> set ks. k < length (rs[k := robot1])"
        using inr by simp
      have inr1': "\<forall>j \<in> set ks. j < length (rs[k := robot1])"
        using inr by simp
      note ih = Cons.IH [OF li(1) Cons.prems(2) dk inr1' rest]
      have len: "length rs0 = length rs" using ih by simp
      have each: "\<forall>j. (j \<notin> set (k # ks) \<longrightarrow> rs0 ! j = rs ! j)
              \<and> (\<exists>d. 0 \<le> d \<and> d \<le> mps \<and> rs0 ! j = (rs ! j)\<lparr> labels_placed := labels_placed (rs ! j) + d \<rparr>
                     \<and> (\<not> robot_takes_part (rs ! j) \<longrightarrow> d = 0))"
      proof
        fix j
        show "(j \<notin> set (k # ks) \<longrightarrow> rs0 ! j = rs ! j)
              \<and> (\<exists>d. 0 \<le> d \<and> d \<le> mps \<and> rs0 ! j = (rs ! j)\<lparr> labels_placed := labels_placed (rs ! j) + d \<rparr>
                     \<and> (\<not> robot_takes_part (rs ! j) \<longrightarrow> d = 0))"
        proof (cases "j = k")
          case True
          then have "rs0 ! j = rs[k := robot1] ! j" using ih kn by simp
          then show ?thesis using upd True by auto
        next
          case False
          then have same: "rs[k := robot1] ! j = rs ! j" by simp
          note ihj = ih [THEN conjunct2, THEN spec, of j]
          show ?thesis using ihj [unfolded same] False by auto
        qed
      qed
      show ?thesis unfolding res using len each by blast
    qed
  qed
qed

lemma mangos_per_station_pos: "1 \<le> mangos_per_station p t"
  by (simp add: mangos_per_station_def Let_def)

text \<open>
  C4. In the batch estimator, take a box as generated (\<open>0 \<le> num_mangos\<close> within the
  array, all items Unclaimed, \<open>labeled_count = 0\<close>) and a roster of \<open>nr\<close> robots.
  The loop visits the slots \<open>0, 1, 2, ...\<close> in ascending order; every robot labels at
  most \<open>mangos_per_station\<close> items of the box, and only robots that are neither
  Disabled nor failed label any; afterwards the Labeled items are exactly the first
  \<open>labeled_count\<close> slots of the box (items are taken in ascending array order), and
  \<open>labeled_count = min(num_mangos, A * mangos_per_station)\<close> where \<open>A\<close> is the number
  of visited robots that are neither Disabled nor failed (the same value results when
  \<open>A\<close> counts such robots in the whole roster). So \<open>labeled_count \<le> num_mangos\<close>.
\<close>

theorem batch_labeled_count:
  assumes "labeled_prefix box 0" and "nat nr \<le> length rs"
  shows "labeled_count (box_after nr (mangos_per_station p t) rs box)
           = min (num_mangos box)
                 (count_taking_part rs (visited_robots nr (mangos_per_station p t) rs box)
                    * mangos_per_station p t)
       \<and> labeled_count (box_after nr (mangos_per_station p t) rs box)
           = min (num_mangos box) (count_taking_part rs [0 ..< nat nr] * mangos_per_station p t)
       \<and> labeled_count (box_after nr (mangos_per_station p t) rs box) \<le> num_mangos box
       \<and> num_mangos (box_after nr (mangos_per_station p t) rs box) = num_mangos box
       \<and> visited_robots nr (mangos_per_station p t) rs box
           = [0 ..< length (visited_robots nr (mangos_per_station p t) rs box)]
       \<and> length (visited_robots nr (mangos_per_station p t) rs box) \<le> nat nr
       \<and> (\<forall>i < nat (num_mangos box).
             mango_state (mangos (box_after nr (mangos_per_station p t) rs box) ! i)
               = (if int i < labeled_count (box_after nr (mangos_per_station p t) rs box)
                  then MANGO_LABELED else MANGO_UNLABELED))
       \<and> (\<forall>j < length rs.
             labels_placed (rs ! j) \<le> labels_placed (robots_after nr (mangos_per_station p t) rs box ! j)
             \<and> labels_placed (robots_after nr (mangos_per_station p t) rs box ! j)
                 \<le> labels_placed (rs ! j) + mangos_per_station p t
             \<and> (\<not> robot_takes_part (rs ! j) \<longrightarrow>
                  robots_after nr (mangos_per_station p t) rs box ! j = rs ! j))"
proof -
  define mps where "mps = mangos_per_station p t"
  have mps1: "1 \<le> mps" unfolding mps_def by (rule mangos_per_station_pos)
  obtain vis rs' box' where run: "visit_robots [0 ..< nat nr] mps rs box = (vis, rs', box')"
    by (cases "visit_robots [0 ..< nat nr] mps rs box") auto
  have proj: "visited_robots nr mps rs box = vis" "robots_after nr mps rs box = rs'"
    "box_after nr mps rs box = box'"
    using run by (simp_all add: visited_robots_def robots_after_def box_after_def)
  from visit_robots_prefix [OF assms(1) mps1 run] obtain L' where pre:
    "labeled_prefix box' L'" "num_mangos box' = num_mangos box"
    "int L' = min (num_mangos box) (int 0 + int (length (filter (\<lambda>k. robot_takes_part (rs ! k)) vis)) * mps)"
    "int L' = min (num_mangos box) (int 0 + int (length (filter (\<lambda>k. robot_takes_part (rs ! k)) [0 ..< nat nr])) * mps)"
    "vis = take (length vis) [0 ..< nat nr]"
    by blast
  have cnt: "labeled_count box' = int L'" and Lle: "L' \<le> nat (num_mangos box')"
    and st: "\<forall>i < nat (num_mangos box'). mango_state (mangos box' ! i) = (if i < L' then MANGO_LABELED else MANGO_UNLABELED)"
    and nn: "0 \<le> num_mangos box'"
    using pre(1) by (simp_all add: labeled_prefix_def)
  have c1: "labeled_count box' = min (num_mangos box) (count_taking_part rs vis * mps)"
    using cnt pre(3) by (simp add: count_taking_part_def)
  have c2: "labeled_count box' = min (num_mangos box) (count_taking_part rs [0 ..< nat nr] * mps)"
    using cnt pre(4) by (simp add: count_taking_part_def)
  have c3: "labeled_count box' \<le> num_mangos box"
    using c1 by simp
  have vlen: "length vis \<le> nat nr"
  proof -
    have "length vis = length (take (length vis) [0 ..< nat nr])" using pre(5) by simp
    then show ?thesis by simp
  qed
  have "take (length vis) [0 ..< nat nr] = [0 ..< 0 + length vis]"
    by (rule take_upt) (use vlen in simp)
  then have c5: "vis = [0 ..< length vis]" using pre(5) by simp
  have c7: "\<forall>i < nat (num_mangos box). mango_state (mangos box' ! i)
               = (if int i < labeled_count box' then MANGO_LABELED else MANGO_UNLABELED)"
    using st cnt pre(2) by simp
  have inr: "\<forall>k \<in> set [0 ..< nat nr]. k < length rs" using assms(2) by simp
  note lb = visit_robots_labels [OF assms(1) mps1 distinct_upt inr run]
  have c8: "\<forall>j < length rs.
             labels_placed (rs ! j) \<le> labels_placed (rs' ! j)
             \<and> labels_placed (rs' ! j) \<le> labels_placed (rs ! j) + mps
             \<and> (\<not> robot_takes_part (rs ! j) \<longrightarrow> rs' ! j = rs ! j)"
  proof (intro allI impI)
    fix j assume "j < length rs"
    from lb obtain d where "0 \<le> d" "d \<le> mps"
      "rs' ! j = (rs ! j)\<lparr> labels_placed := labels_placed (rs ! j) + d \<rparr>"
      "\<not> robot_takes_part (rs ! j) \<longrightarrow> d = 0"
      by blast
    then show "labels_placed (rs ! j) \<le> labels_placed (rs' ! j)
             \<and> labels_placed (rs' ! j) \<le> labels_placed (rs ! j) + mps
             \<and> (\<not> robot_takes_part (rs ! j) \<longrightarrow> rs' ! j = rs ! j)"
      by auto
  qed
  show ?thesis
    unfolding mps_def [symmetric] proj
    using c1 c2 c3 pre(2) c5 vlen c7 c8 by simp
qed

theorem batch_labeled_count_witness:
  "labeled_prefix (fresh_box 3) 0 \<and> nat 2 \<le> length (replicate 32 zero_robot)
   \<and> labeled_count (box_after 2 (mangos_per_station default_params (15 / 2))
                       (replicate 32 zero_robot) (fresh_box 3)) = 2
   \<and> num_mangos (fresh_box 3) = 3"
proof -
  have h1: "labeled_prefix (fresh_box 3) 0"
    by (simp add: labeled_prefix_def fresh_box_def cleared_mango_def)
  have h2: "nat 2 \<le> length (replicate 32 zero_robot)"
    by simp
  have mps: "mangos_per_station default_params (15 / 2) = 1"
    by code_simp
  have cnt: "count_taking_part (replicate 32 zero_robot) [0 ..< nat 2] = 2"
    by code_simp
  have n: "num_mangos (fresh_box 3) = 3"
    by (simp add: fresh_box_def)
  have "labeled_count (box_after 2 (mangos_per_station default_params (15 / 2))
                       (replicate 32 zero_robot) (fresh_box 3))
          = min (num_mangos (fresh_box 3))
                (count_taking_part (replicate 32 zero_robot) [0 ..< nat 2]
                   * mangos_per_station default_params (15 / 2))"
    using batch_labeled_count [OF h1 h2, of default_params "15 / 2"] by blast
  then have "labeled_count (box_after 2 (mangos_per_station default_params (15 / 2))
                       (replicate 32 zero_robot) (fresh_box 3)) = 2"
    unfolding mps cnt n by simp
  with h1 h2 n show ?thesis by blast
qed


section \<open>Properties of the box generator\<close>

lemma RAND_MAX_pos: "0 < RAND_MAX"
  by (simp add: RAND_MAX_def)

lemma rand_ok:
  assumes "rng_ok g"
  shows "0 \<le> fst (rand g)" and "fst (rand g) \<le> RAND_MAX" and "rng_ok (snd (rand g))"
  using assms by (simp_all add: rng_ok_def rand_def)

lemma random_int_range:
  assumes "rng_ok g" and "lo \<le> hi"
  shows "lo \<le> fst (random_int lo hi g)" and "fst (random_int lo hi g) \<le> hi"
    and "rng_ok (snd (random_int lo hi g))"
proof -
  have v: "0 \<le> fst (rand g)" using assms(1) by (rule rand_ok)
  have m: "0 < hi - lo + 1" using assms(2) by simp
  have "0 \<le> fst (rand g) smod (hi - lo + 1)" and "fst (rand g) smod (hi - lo + 1) < hi - lo + 1"
    using smod_int_compares(2) [OF v m] smod_int_compares(1) [OF v m] by blast+
  then show "lo \<le> fst (random_int lo hi g)" and "fst (random_int lo hi g) \<le> hi"
    by (simp_all add: random_int_def split_beta)
  show "rng_ok (snd (random_int lo hi g))"
    using rand_ok(3) [OF assms(1)] by (simp add: random_int_def split_beta)
qed

lemma random_range_range:
  assumes "rng_ok g" and "lo \<le> hi"
  shows "lo \<le> fst (random_range lo hi g)" and "fst (random_range lo hi g) \<le> hi"
    and "rng_ok (snd (random_range lo hi g))"
proof -
  define t where "t = real_of_int (fst (rand g)) / real_of_int RAND_MAX"
  have t0: "0 \<le> t"
    unfolding t_def using rand_ok(1) [OF assms(1)] RAND_MAX_pos by simp
  have t1: "t \<le> 1"
    unfolding t_def using rand_ok(2) [OF assms(1)] RAND_MAX_pos by simp
  have eq: "fst (random_range lo hi g) = lo + t * (hi - lo)"
    by (simp add: random_range_def split_beta t_def)
  have w: "0 \<le> hi - lo" using assms(2) by simp
  have "0 \<le> t * (hi - lo)" using t0 w by simp
  then show "lo \<le> fst (random_range lo hi g)" unfolding eq by simp
  have "t * (hi - lo) \<le> 1 * (hi - lo)" using t1 w by (rule mult_right_mono)
  then show "fst (random_range lo hi g) \<le> hi" unfolding eq by simp
  show "rng_ok (snd (random_range lo hi g))"
    using rand_ok(3) [OF assms(1)] by (simp add: random_range_def split_beta)
qed

lemma far_from_placed_iff:
  "far_from_placed arr js x y d \<longleftrightarrow>
     (\<forall>j \<in> set js. d \<le> distance x y (mango_x (arr ! j)) (mango_y (arr ! j)))"
  by (induction js) auto

lemma place_loop_unfold:
  "place_loop lo hi d i arr valid attempts g =
     (if \<not> valid \<and> attempts < 100 then
        place_loop lo hi d i
          (arr[i := (arr ! i)\<lparr> mango_x := fst (random_range lo hi g),
                                mango_y := fst (random_range lo hi (snd (random_range lo hi g))) \<rparr>])
          (far_from_placed
             (arr[i := (arr ! i)\<lparr> mango_x := fst (random_range lo hi g),
                                   mango_y := fst (random_range lo hi (snd (random_range lo hi g))) \<rparr>])
             [0 ..< i] (fst (random_range lo hi g))
             (fst (random_range lo hi (snd (random_range lo hi g)))) d)
          (attempts + 1)
          (snd (random_range lo hi (snd (random_range lo hi g))))
      else (arr, valid, attempts, g))"
  by (subst place_loop.simps) (simp add: Let_def)

lemma place_loop_inv:
  assumes "rng_ok g" and "lo \<le> hi" and "i < length arr"
    and "(in_square lo hi (arr ! i) \<and> (valid \<longrightarrow> apart_from_earlier d arr i))
           \<or> (\<not> valid \<and> attempts < 100)"
    and "place_loop lo hi d i arr valid attempts g = (arr', valid', attempts', g')"
  shows "length arr' = length arr \<and> (\<forall>j. j \<noteq> i \<longrightarrow> arr' ! j = arr ! j)
       \<and> mango_id (arr' ! i) = mango_id (arr ! i) \<and> mango_state (arr' ! i) = mango_state (arr ! i)
       \<and> labeled_by_robot (arr' ! i) = labeled_by_robot (arr ! i)
       \<and> label_time (arr' ! i) = label_time (arr ! i)
       \<and> in_square lo hi (arr' ! i) \<and> (valid' \<longrightarrow> apart_from_earlier d arr' i)
       \<and> rng_ok g' \<and> (\<not> valid' \<longrightarrow> 100 \<le> attempts') \<and> (attempts \<le> 100 \<longrightarrow> attempts' \<le> 100)"
  using assms
proof (induction "nat (100 - attempts)" arbitrary: arr valid attempts g)
  case 0
  then have stop: "\<not> (\<not> valid \<and> attempts < 100)" by simp
  then have "place_loop lo hi d i arr valid attempts g = (arr, valid, attempts, g)"
    by (subst place_loop_unfold) auto
  then have res: "arr' = arr" "valid' = valid" "attempts' = attempts" "g' = g"
    using "0.prems"(5) by simp_all
  show ?case unfolding res using "0.prems"(1,4) stop by auto
next
  case (Suc n)
  show ?case
  proof (cases "\<not> valid \<and> attempts < 100")
    case False
    then have "place_loop lo hi d i arr valid attempts g = (arr, valid, attempts, g)"
      by (subst place_loop_unfold) auto
    then have res: "arr' = arr" "valid' = valid" "attempts' = attempts" "g' = g"
      using Suc.prems(5) by simp_all
    show ?thesis unfolding res using Suc.prems(1,4) False by auto
  next
    case True
    define x where "x = fst (random_range lo hi g)"
    define g1 where "g1 = snd (random_range lo hi g)"
    define y where "y = fst (random_range lo hi g1)"
    define g2 where "g2 = snd (random_range lo hi g1)"
    define arr1 where "arr1 = arr[i := (arr ! i)\<lparr> mango_x := x, mango_y := y \<rparr>]"
    define valid1 where "valid1 = far_from_placed arr1 [0 ..< i] x y d"
    have step: "place_loop lo hi d i arr1 valid1 (attempts + 1) g2 = (arr', valid', attempts', g')"
      using Suc.prems(5) True
      by (subst (asm) place_loop_unfold) (simp add: x_def g1_def y_def g2_def arr1_def valid1_def)
    have xr: "lo \<le> x" "x \<le> hi" and g1ok: "rng_ok g1"
      unfolding x_def g1_def using random_range_range [OF Suc.prems(1,2)] by simp_all
    have yr: "lo \<le> y" "y \<le> hi" and g2ok: "rng_ok g2"
      unfolding y_def g2_def using random_range_range [OF g1ok Suc.prems(2)] by simp_all
    have at_i: "arr1 ! i = (arr ! i)\<lparr> mango_x := x, mango_y := y \<rparr>"
      using Suc.prems(3) by (simp add: arr1_def)
    have len1: "i < length arr1" using Suc.prems(3) by (simp add: arr1_def)
    have sq: "in_square lo hi (arr1 ! i)"
      unfolding at_i using xr yr by (simp add: in_square_def)
    have ap: "valid1 \<longrightarrow> apart_from_earlier d arr1 i"
      unfolding valid1_def far_from_placed_iff apart_from_earlier_def at_i by simp
    have n: "n = nat (100 - (attempts + 1))" using Suc.hyps(2) by simp
    have pre: "(in_square lo hi (arr1 ! i) \<and> (valid1 \<longrightarrow> apart_from_earlier d arr1 i))
           \<or> (\<not> valid1 \<and> attempts + 1 < 100)"
      using sq ap by simp
    note ih = Suc.hyps(1) [OF n g2ok Suc.prems(2) len1 pre step]
    have frame: "\<forall>j. j \<noteq> i \<longrightarrow> arr' ! j = arr ! j"
      using ih by (simp add: arr1_def)
    have fields: "mango_id (arr' ! i) = mango_id (arr ! i) \<and> mango_state (arr' ! i) = mango_state (arr ! i)
       \<and> labeled_by_robot (arr' ! i) = labeled_by_robot (arr ! i)
       \<and> label_time (arr' ! i) = label_time (arr ! i)"
      using ih at_i by simp
    have len: "length arr' = length arr" using ih by (simp add: arr1_def)
    have att: "attempts \<le> 100 \<longrightarrow> attempts' \<le> 100" using ih True by simp
    from ih frame fields len att show ?thesis by blast
  qed
qed


lemma apart_from_earlier_cong:
  "\<forall>j \<le> i. arr' ! j = arr ! j \<Longrightarrow> apart_from_earlier d arr' i = apart_from_earlier d arr i"
  by (simp add: apart_from_earlier_def)

lemma place_mango_step:
  assumes "rng_ok g" and "lo \<le> hi" and "n < length arr"
    and "items_placed lo hi d n arr warned"
    and "place_mango lo hi d n (arr, warned, g) = (arr', warned', g')"
  shows "items_placed lo hi d (Suc n) arr' warned'" and "length arr' = length arr"
    and "rng_ok g'" and "\<forall>j. j \<noteq> n \<longrightarrow> arr' ! j = arr ! j"
proof -
  define arr0 where "arr0 = arr[n := (arr ! n)\<lparr> mango_id := int n, mango_state := MANGO_UNLABELED,
                                      labeled_by_robot := - 1, label_time := 0 \<rparr>]"
  obtain arr1 valid attempts g1 where loop:
    "place_loop lo hi d n arr0 False 0 g = (arr1, valid, attempts, g1)"
    by (cases "place_loop lo hi d n arr0 False 0 g") auto
  have res: "arr' = arr1" "warned' = (if \<not> valid then warned @ [n] else warned)" "g' = g1"
    using assms(5) loop by (simp_all add: place_mango_def arr0_def [symmetric] Let_def)
  have len0: "n < length arr0" using assms(3) by (simp add: arr0_def)
  have pre: "(in_square lo hi (arr0 ! n) \<and> (False \<longrightarrow> apart_from_earlier d arr0 n))
           \<or> (\<not> False \<and> (0::int) < 100)"
    by simp
  note inv = place_loop_inv [OF assms(1,2) len0 pre loop]
  have at0: "arr0 ! n = (arr ! n)\<lparr> mango_id := int n, mango_state := MANGO_UNLABELED,
                                      labeled_by_robot := - 1, label_time := 0 \<rparr>"
    using assms(3) by (simp add: arr0_def)
  show len: "length arr' = length arr" using inv by (simp add: res arr0_def)
  show "rng_ok g'" using inv by (simp add: res)
  show frame: "\<forall>j. j \<noteq> n \<longrightarrow> arr' ! j = arr ! j"
    using inv by (simp add: res arr0_def)
  have new: "mango_id (arr' ! n) = int n \<and> mango_state (arr' ! n) = MANGO_UNLABELED \<and>
        labeled_by_robot (arr' ! n) = - 1 \<and> label_time (arr' ! n) = 0 \<and>
        in_square lo hi (arr' ! n) \<and>
        (apart_from_earlier d arr' n \<or> n \<in> set warned')"
    using inv at0 by (auto simp add: res)
  have old: "\<forall>i \<in> set [0 ..< n].
        mango_id (arr' ! i) = int i \<and> mango_state (arr' ! i) = MANGO_UNLABELED \<and>
        labeled_by_robot (arr' ! i) = - 1 \<and> label_time (arr' ! i) = 0 \<and>
        in_square lo hi (arr' ! i) \<and>
        (apart_from_earlier d arr' i \<or> i \<in> set warned')"
  proof
    fix i assume "i \<in> set [0 ..< n]"
    then have i: "i < n" by simp
    then have same: "arr' ! i = arr ! i" using frame by simp
    have "\<forall>j \<le> i. arr' ! j = arr ! j" using frame i by simp
    then have ap: "apart_from_earlier d arr' i = apart_from_earlier d arr i"
      by (rule apart_from_earlier_cong)
    have w: "i \<in> set warned \<longrightarrow> i \<in> set warned'" by (simp add: res)
    have "mango_id (arr ! i) = int i \<and> mango_state (arr ! i) = MANGO_UNLABELED \<and>
        labeled_by_robot (arr ! i) = - 1 \<and> label_time (arr ! i) = 0 \<and>
        in_square lo hi (arr ! i) \<and>
        (apart_from_earlier d arr i \<or> i \<in> set warned)"
      using assms(4) i by (simp add: items_placed_def)
    then show "mango_id (arr' ! i) = int i \<and> mango_state (arr' ! i) = MANGO_UNLABELED \<and>
        labeled_by_robot (arr' ! i) = - 1 \<and> label_time (arr' ! i) = 0 \<and>
        in_square lo hi (arr' ! i) \<and>
        (apart_from_earlier d arr' i \<or> i \<in> set warned')"
      unfolding same ap using w by blast
  qed
  show "items_placed lo hi d (Suc n) arr' warned'"
    unfolding items_placed_def using old new by (simp add: less_Suc_eq)
qed

lemma fold_place_mango:
  assumes "rng_ok g" and "lo \<le> hi" and "n \<le> length arr"
    and "fold (place_mango lo hi d) [0 ..< n] (arr, [], g) = (arr', warned', g')"
  shows "items_placed lo hi d n arr' warned' \<and> length arr' = length arr \<and> rng_ok g'
       \<and> (\<forall>j \<ge> n. arr' ! j = arr ! j)"
  using assms(3,4)
proof (induction n arbitrary: arr' warned' g')
  case 0
  then show ?case using assms(1) by (simp add: items_placed_def)
next
  case (Suc n)
  obtain arr1 warned1 g1 where mid: "fold (place_mango lo hi d) [0 ..< n] (arr, [], g) = (arr1, warned1, g1)"
    by (cases "fold (place_mango lo hi d) [0 ..< n] (arr, [], g)") auto
  have nle: "n \<le> length arr" using Suc.prems(1) by simp
  note ih = Suc.IH [OF nle mid]
  have last: "place_mango lo hi d n (arr1, warned1, g1) = (arr', warned', g')"
    using Suc.prems(2) mid by simp
  have g1ok: "rng_ok g1" and pl: "items_placed lo hi d n arr1 warned1"
    and nlen: "n < length arr1"
    using ih Suc.prems(1) by simp_all
  note st = place_mango_step [OF g1ok assms(2) nlen pl last]
  have "\<forall>j \<ge> Suc n. arr' ! j = arr ! j"
    using st(4) ih by simp
  then show ?case using st ih by simp
qed

lemma items_placed_generated:
  assumes "items_placed (- (param_Z p / 2) + param_Z p / 10) (param_Z p / 2 - param_Z p / 10)
             (param_Z p / 15) (nat (num_mangos box)) (mangos box) warned"
    and "N_min p \<le> num_mangos box" and "num_mangos box \<le> N_max p"
  shows "box_as_generated p box warned"
  using assms by (auto simp add: box_as_generated_def items_placed_def apart_from_earlier_def)

lemma items_placed_fresh:
  assumes "items_placed lo hi d (nat (num_mangos box)) (mangos box) warned"
    and "0 \<le> num_mangos box" and "nat (num_mangos box) \<le> length (mangos box)"
    and "labeled_count box = 0"
  shows "labeled_prefix box 0"
  using assms by (simp add: labeled_prefix_def items_placed_def)


lemma generate_box_slot_step:
  assumes "rng_ok g" and "0 < param_Z (cfg_params config)"
    and "N_min (cfg_params config) \<le> N_max (cfg_params config)"
    and "N_max (cfg_params config) \<le> MAX_MANGOS_PER_BOX"
    and "b < length boxes" and "length (mangos (boxes ! b)) = 100"
    and "generate_box_slot config b (boxes, warned_all, g) = (boxes', warned_all', g')"
  shows "length boxes' = length boxes" and "\<forall>c. c \<noteq> b \<longrightarrow> boxes' ! c = boxes ! c"
    and "\<exists>warned. warned_all' = warned_all @ [warned]
           \<and> box_as_generated (cfg_params config) (boxes' ! b) warned
           \<and> (0 \<le> N_min (cfg_params config) \<longrightarrow> labeled_prefix (boxes' ! b) 0)"
    and "labeled_count (boxes' ! b) = 0" and "length (mangos (boxes' ! b)) = 100"
    and "rng_ok g'"
proof -
  let ?p = "cfg_params config"
  define n where "n = fst (random_int (N_min ?p) (N_max ?p) g)"
  define g1 where "g1 = snd (random_int (N_min ?p) (N_max ?p) g)"
  define lo where "lo = - (param_Z ?p / 2) + param_Z ?p / 10"
  define hi where "hi = param_Z ?p / 2 - param_Z ?p / 10"
  define d where "d = param_Z ?p / 15"
  obtain arr warned g2 where run:
    "fold (place_mango lo hi d) [0 ..< nat n] (mangos (boxes ! b), [], g1) = (arr, warned, g2)"
    by (cases "fold (place_mango lo hi d) [0 ..< nat n] (mangos (boxes ! b), [], g1)") auto
  define box' where "box' = (boxes ! b)\<lparr> box_id := int b, entry_time := 0, position := 0,
                                              completed := False, labeled_count := 0,
                                              num_mangos := n, mangos := arr \<rparr>"
  have gs: "generate_box_slot config b (boxes, warned_all, g) =
      (boxes[b := box'], warned_all @ [warned], g2)"
    using run
    by (simp add: generate_box_slot_def split_beta Let_def n_def g1_def lo_def hi_def d_def box'_def)
  then have res: "boxes' = boxes[b := box']" "warned_all' = warned_all @ [warned]" "g' = g2"
    using assms(7) by simp_all
  have nr: "N_min ?p \<le> n" "n \<le> N_max ?p" and g1ok: "rng_ok g1"
    unfolding n_def g1_def using random_int_range [OF assms(1,3)] by simp_all
  have lohi: "lo \<le> hi" unfolding lo_def hi_def using assms(2) by simp
  have fits: "nat n \<le> length (mangos (boxes ! b))"
    using nr(2) assms(4,6) by (simp add: MAX_MANGOS_PER_BOX_def)
  note f = fold_place_mango [OF g1ok lohi fits run]
  then have pl: "items_placed lo hi d (nat n) arr warned" by simp
  have at: "boxes' ! b = box'" using assms(5) by (simp add: res)
  show "length boxes' = length boxes" by (simp add: res)
  show "\<forall>c. c \<noteq> b \<longrightarrow> boxes' ! c = boxes ! c" by (simp add: res)
  show "labeled_count (boxes' ! b) = 0" unfolding at by (simp add: box'_def)
  show "length (mangos (boxes' ! b)) = 100" unfolding at using f assms(6) by (simp add: box'_def)
  show "rng_ok g'" using f by (simp add: res)
  have gen: "box_as_generated ?p box' warned"
    using pl nr
    by (intro items_placed_generated) (simp_all add: lo_def hi_def d_def box'_def)
  have fresh: "0 \<le> N_min ?p \<longrightarrow> labeled_prefix box' 0"
  proof
    assume "0 \<le> N_min ?p"
    then have "0 \<le> n" using nr(1) by simp
    then show "labeled_prefix box' 0"
      using pl f fits
      by (intro items_placed_fresh [of lo hi d _ warned]) (simp_all add: box'_def)
  qed
  show "\<exists>warned. warned_all' = warned_all @ [warned]
           \<and> box_as_generated (cfg_params config) (boxes' ! b) warned
           \<and> (0 \<le> N_min (cfg_params config) \<longrightarrow> labeled_prefix (boxes' ! b) 0)"
    unfolding at using res(2) gen fresh by blast
qed

lemma fold_generate_box_slot:
  assumes "rng_ok g" and "0 < param_Z (cfg_params config)"
    and "N_min (cfg_params config) \<le> N_max (cfg_params config)"
    and "N_max (cfg_params config) \<le> MAX_MANGOS_PER_BOX"
    and "\<forall>b < length boxes. length (mangos (boxes ! b)) = 100"
    and "m \<le> length boxes"
    and "fold (generate_box_slot config) [0 ..< m] (boxes, [], g) = (boxes', warned_all', g')"
  shows "length boxes' = length boxes \<and> length warned_all' = m \<and> rng_ok g'
       \<and> (\<forall>b < length boxes. length (mangos (boxes' ! b)) = 100)
       \<and> (\<forall>b \<ge> m. boxes' ! b = boxes ! b)
       \<and> (\<forall>b < m. box_as_generated (cfg_params config) (boxes' ! b) (warned_all' ! b)
                   \<and> labeled_count (boxes' ! b) = 0
                   \<and> (0 \<le> N_min (cfg_params config) \<longrightarrow> labeled_prefix (boxes' ! b) 0))"
  using assms(6,7)
proof (induction m arbitrary: boxes' warned_all' g')
  case 0
  then show ?case using assms(1,5) by simp
next
  case (Suc m)
  obtain boxes1 warned1 g1 where mid:
    "fold (generate_box_slot config) [0 ..< m] (boxes, [], g) = (boxes1, warned1, g1)"
    by (cases "fold (generate_box_slot config) [0 ..< m] (boxes, [], g)") auto
  have mle: "m \<le> length boxes" using Suc.prems(1) by simp
  note ih = Suc.IH [OF mle mid]
  have last: "generate_box_slot config m (boxes1, warned1, g1) = (boxes', warned_all', g')"
    using Suc.prems(2) mid by simp
  have g1ok: "rng_ok g1" and mlen: "m < length boxes1"
    using ih Suc.prems(1) by simp_all
  have "m < length boxes" using Suc.prems(1) by simp
  then have m100: "length (mangos (boxes1 ! m)) = 100"
    using ih by blast
  note st = generate_box_slot_step [OF g1ok assms(2,3,4) mlen m100 last]
  from st(3) obtain warned where w: "warned_all' = warned1 @ [warned]"
    "box_as_generated (cfg_params config) (boxes' ! m) warned"
    "0 \<le> N_min (cfg_params config) \<longrightarrow> labeled_prefix (boxes' ! m) 0"
    by blast
  have len: "length boxes' = length boxes" using st(1) ih by simp
  have wl: "length warned_all' = Suc m" using w(1) ih by simp
  have l100: "\<forall>b < length boxes. length (mangos (boxes' ! b)) = 100"
  proof (intro allI impI)
    fix b assume "b < length boxes"
    then show "length (mangos (boxes' ! b)) = 100"
      using st(2,5) ih by (cases "b = m") simp_all
  qed
  have rest: "\<forall>b \<ge> Suc m. boxes' ! b = boxes ! b"
    using st(2) ih by simp
  have each: "\<forall>b < Suc m. box_as_generated (cfg_params config) (boxes' ! b) (warned_all' ! b)
                   \<and> labeled_count (boxes' ! b) = 0
                   \<and> (0 \<le> N_min (cfg_params config) \<longrightarrow> labeled_prefix (boxes' ! b) 0)"
  proof (intro allI impI)
    fix b assume b: "b < Suc m"
    show "box_as_generated (cfg_params config) (boxes' ! b) (warned_all' ! b)
                   \<and> labeled_count (boxes' ! b) = 0
                   \<and> (0 \<le> N_min (cfg_params config) \<longrightarrow> labeled_prefix (boxes' ! b) 0)"
    proof (cases "b = m")
      case True
      have "warned_all' ! m = warned" using w(1) ih by (simp add: nth_append)
      then show ?thesis using True w(2,3) st(4) by simp
    next
      case False
      then have lt: "b < m" using b by simp
      then have "warned_all' ! b = warned1 ! b" using w(1) ih by (simp add: nth_append)
      moreover have "boxes' ! b = boxes1 ! b" using st(2) False by simp
      ultimately show ?thesis using ih lt by simp
    qed
  qed
  show ?case using len wl st(6) l100 rest each by blast
qed




section \<open>A run of the batch estimator in which every robot fails\<close>

lemma rng_suffix_refl: "rng_suffix g g"
  unfolding rng_suffix_def by (rule exI [of _ 0]) simp

lemma rng_suffix_trans:
  assumes "rng_suffix g2 g1" and "rng_suffix g1 g"
  shows "rng_suffix g2 g"
proof -
  from assms obtain a b where "g2 = (\<lambda>k. g1 (k + a))" and "g1 = (\<lambda>k. g (k + b))"
    unfolding rng_suffix_def by blast
  then have "g2 = (\<lambda>k. g (k + (a + b)))" by (simp add: add.assoc)
  then show ?thesis unfolding rng_suffix_def by blast
qed

lemma rand_suffix: "rng_suffix (snd (rand g)) g"
  unfolding rng_suffix_def rand_def by (rule exI [of _ 1]) simp

lemma random_int_suffix: "rng_suffix (snd (random_int lo hi g)) g"
  using rand_suffix [of g] by (simp add: random_int_def split_beta)

lemma random_range_suffix: "rng_suffix (snd (random_range lo hi g)) g"
  using rand_suffix [of g] by (simp add: random_range_def split_beta)

lemma place_loop_suffix:
  "rng_suffix (snd (snd (snd (place_loop lo hi d i arr valid attempts g)))) g"
proof (induction "nat (100 - attempts)" arbitrary: arr valid attempts g)
  case 0
  then have "\<not> (\<not> valid \<and> attempts < 100)" by simp
  then have "place_loop lo hi d i arr valid attempts g = (arr, valid, attempts, g)"
    by (subst place_loop_unfold) auto
  then show ?case by (simp add: rng_suffix_refl)
next
  case (Suc n)
  show ?case
  proof (cases "\<not> valid \<and> attempts < 100")
    case False
    then have "place_loop lo hi d i arr valid attempts g = (arr, valid, attempts, g)"
      by (subst place_loop_unfold) auto
    then show ?thesis by (simp add: rng_suffix_refl)
  next
    case True
    have n: "n = nat (100 - (attempts + 1))" using Suc.hyps(2) by simp
    define g1 where "g1 = snd (random_range lo hi g)"
    define g2 where "g2 = snd (random_range lo hi g1)"
    have two: "rng_suffix g2 g"
      unfolding g2_def g1_def
      by (rule rng_suffix_trans [OF random_range_suffix random_range_suffix])
    have "rng_suffix (snd (snd (snd (place_loop lo hi d i arr valid attempts g)))) g2"
      using True
      by (subst place_loop_unfold) (simp add: Suc.hyps(1) [OF n] g2_def g1_def)
    then show ?thesis using two by (rule rng_suffix_trans)
  qed
qed

lemma place_mango_suffix: "rng_suffix (snd (snd (place_mango lo hi d i s))) (snd (snd s))"
proof (cases s)
  case (fields arr warned g)
  show ?thesis
    unfolding fields place_mango_def
    using place_loop_suffix [of lo hi d i _ False 0 g]
    by (simp add: split_beta Let_def)
qed

lemma fold_place_mango_suffix:
  "rng_suffix (snd (snd (fold (place_mango lo hi d) is s))) (snd (snd s))"
proof (induction "is" arbitrary: s)
  case Nil
  show ?case by (simp add: rng_suffix_refl)
next
  case (Cons i "is")
  have "rng_suffix (snd (snd (fold (place_mango lo hi d) is (place_mango lo hi d i s))))
          (snd (snd (place_mango lo hi d i s)))"
    by (rule Cons.IH)
  then show ?case
    using place_mango_suffix [of lo hi d i s] by (auto intro: rng_suffix_trans)
qed

lemma generate_box_slot_suffix:
  "rng_suffix (snd (snd (generate_box_slot config b s))) (snd (snd s))"
proof (cases s)
  case (fields boxes warned_all g)
  show ?thesis
    unfolding fields generate_box_slot_def Let_def case_prod_beta snd_conv fst_conv
    apply (rule rng_suffix_trans)
     apply (rule fold_place_mango_suffix)
    apply (simp add: random_int_suffix)
    done
qed

lemma fold_generate_box_slot_suffix:
  "rng_suffix (snd (snd (fold (generate_box_slot config) bs s))) (snd (snd s))"
proof (induction bs arbitrary: s)
  case Nil
  show ?case by (simp add: rng_suffix_refl)
next
  case (Cons b bs)
  have "rng_suffix (snd (snd (fold (generate_box_slot config) bs (generate_box_slot config b s))))
          (snd (snd (generate_box_slot config b s)))"
    by (rule Cons.IH)
  then show ?case
    using generate_box_slot_suffix [of config b s] by (auto intro: rng_suffix_trans)
qed

lemma init_simulation_suffix: "rng_suffix (snd (snd (init_simulation config sim g))) g"
  using fold_generate_box_slot_suffix [of config _ "(sim_boxes sim, [], g)"]
  by (simp add: init_simulation_def generate_all_boxes_def split_beta Let_def)

lemma fold_init_sim_robot:
  assumes "n \<le> length rs"
  shows "length (fold (init_sim_robot config sp) [0 ..< n] rs) = length rs
       \<and> (\<forall>i < n. int i < cfg_num_robots config \<longrightarrow>
             \<not> is_backup (fold (init_sim_robot config sp) [0 ..< n] rs ! i)
             \<and> \<not> has_failed (fold (init_sim_robot config sp) [0 ..< n] rs ! i)
             \<and> robot_state (fold (init_sim_robot config sp) [0 ..< n] rs ! i) = ROBOT_STATE_IDLE)"
  using assms
proof (induction n)
  case 0
  show ?case by simp
next
  case (Suc n)
  define rs1 where "rs1 = fold (init_sim_robot config sp) [0 ..< n] rs"
  have ih: "length rs1 = length rs"
    "\<forall>i < n. int i < cfg_num_robots config \<longrightarrow>
             \<not> is_backup (rs1 ! i) \<and> \<not> has_failed (rs1 ! i) \<and> robot_state (rs1 ! i) = ROBOT_STATE_IDLE"
    using Suc unfolding rs1_def by simp_all
  have step: "fold (init_sim_robot config sp) [0 ..< Suc n] rs = init_sim_robot config sp n rs1"
    by (simp add: rs1_def)
  have nlen: "n < length rs1" using Suc.prems ih(1) by simp
  have len: "length (init_sim_robot config sp n rs1) = length rs"
    using ih(1) by (simp add: init_sim_robot_def Let_def)
  have other: "\<forall>i. i \<noteq> n \<longrightarrow> init_sim_robot config sp n rs1 ! i = rs1 ! i"
    by (simp add: init_sim_robot_def Let_def)
  have here: "int n < cfg_num_robots config \<longrightarrow>
             \<not> is_backup (init_sim_robot config sp n rs1 ! n)
             \<and> \<not> has_failed (init_sim_robot config sp n rs1 ! n)
             \<and> robot_state (init_sim_robot config sp n rs1 ! n) = ROBOT_STATE_IDLE"
    using nlen by (simp add: init_sim_robot_def Let_def)
  show ?case
    unfolding step using len other here ih(2) by (auto simp add: less_Suc_eq)
qed

lemma rng_below_ok: "rng_below g \<Longrightarrow> rng_ok g"
  by (auto simp add: rng_below_def rng_ok_def intro: less_imp_le)

lemma rng_below_suffix: "rng_below g \<Longrightarrow> rng_suffix g' g \<Longrightarrow> rng_below g'"
  by (auto simp add: rng_below_def rng_suffix_def)

lemma init_simulation_eq:
  "init_simulation config sim g =
     (sim\<lparr> sim_robots := fold (init_sim_robot config
                              (param_W (cfg_params config) / real_of_int (cfg_num_robots config)))
                             [0 ..< nat (cfg_num_robots config + num_backup config)] (sim_robots sim),
           sim_num_robots := cfg_num_robots config + num_backup config,
           sim_boxes := fst (fold (generate_box_slot config) [0 ..< nat (num_boxes config)]
                                  (sim_boxes sim, [], g)),
           sim_box_count := num_boxes config \<rparr>,
      fst (snd (fold (generate_box_slot config) [0 ..< nat (num_boxes config)] (sim_boxes sim, [], g))),
      snd (snd (fold (generate_box_slot config) [0 ..< nat (num_boxes config)] (sim_boxes sim, [], g))))"
  by (simp add: init_simulation_def generate_all_boxes_def split_beta Let_def)

lemma failure_pass_robot_fails:
  assumes "failure_prob config = 1" and "rng_below g" and "\<not> is_backup (rs ! i)"
    and "nat (cfg_num_robots config) = nat n"
  shows "failure_pass_robot config n i (rs, result, g) =
           (rs[i := (rs ! i)\<lparr> has_failed := True, robot_state := ROBOT_STATE_FAILED \<rparr>],
            result\<lparr> robot_failures := robot_failures result + 1 \<rparr>, snd (rand g))"
proof -
  have "0 \<le> g 0" and "g 0 < RAND_MAX" using assms(2) by (simp_all add: rng_below_def)
  then have "real_of_int (g 0) / real_of_int RAND_MAX < 1"
    using RAND_MAX_pos by simp
  then show ?thesis
    using assms(1,3,4) by (simp add: failure_pass_robot_def rand_def Let_def)
qed

lemma fold_failure_pass:
  assumes "failure_prob config = 1" and "nat (cfg_num_robots config) = nat n"
    and "m \<le> length rs" and "rng_below g" and "\<forall>i < m. \<not> is_backup (rs ! i)"
  shows "\<exists>rs' g'. fold (failure_pass_robot config n) [0 ..< m] (rs, result, g)
                    = (rs', result\<lparr> robot_failures := robot_failures result + int m \<rparr>, g')
           \<and> length rs' = length rs \<and> rng_below g'
           \<and> (\<forall>i < m. has_failed (rs' ! i) \<and> robot_state (rs' ! i) = ROBOT_STATE_FAILED
                       \<and> \<not> is_backup (rs' ! i))
           \<and> (\<forall>i \<ge> m. rs' ! i = rs ! i)"
  using assms(3,5)
proof (induction m)
  case 0
  show ?case using assms(4) by simp
next
  case (Suc m)
  have mle: "m \<le> length rs" and nb: "\<forall>i < m. \<not> is_backup (rs ! i)"
    using Suc.prems by simp_all
  from Suc.IH [OF mle nb] obtain rs1 g1 where ih:
    "fold (failure_pass_robot config n) [0 ..< m] (rs, result, g)
       = (rs1, result\<lparr> robot_failures := robot_failures result + int m \<rparr>, g1)"
    "length rs1 = length rs" "rng_below g1"
    "\<forall>i < m. has_failed (rs1 ! i) \<and> robot_state (rs1 ! i) = ROBOT_STATE_FAILED \<and> \<not> is_backup (rs1 ! i)"
    "\<forall>i \<ge> m. rs1 ! i = rs ! i"
    by blast
  have here: "\<not> is_backup (rs1 ! m)" using ih(5) Suc.prems(2) by simp
  have mlen: "m < length rs1" using Suc.prems(1) ih(2) by simp
  define rs2 where "rs2 = rs1[m := (rs1 ! m)\<lparr> has_failed := True, robot_state := ROBOT_STATE_FAILED \<rparr>]"
  have step: "fold (failure_pass_robot config n) [0 ..< Suc m] (rs, result, g)
       = (rs2, result\<lparr> robot_failures := robot_failures result + int (Suc m) \<rparr>, snd (rand g1))"
    using ih(1) failure_pass_robot_fails [OF assms(1) ih(3) here assms(2)]
    by (simp add: rs2_def add.assoc)
  have g2: "rng_below (snd (rand g1))"
    using ih(3) rand_suffix by (rule rng_below_suffix)
  have each: "\<forall>i < Suc m. has_failed (rs2 ! i) \<and> robot_state (rs2 ! i) = ROBOT_STATE_FAILED
                       \<and> \<not> is_backup (rs2 ! i)"
  proof (intro allI impI)
    fix i assume "i < Suc m"
    then show "has_failed (rs2 ! i) \<and> robot_state (rs2 ! i) = ROBOT_STATE_FAILED \<and> \<not> is_backup (rs2 ! i)"
      using ih(4) here mlen by (cases "i = m") (simp_all add: rs2_def)
  qed
  have rest: "\<forall>i \<ge> Suc m. rs2 ! i = rs ! i"
    using ih(5) by (simp add: rs2_def)
  have len: "length rs2 = length rs" using ih(2) by (simp add: rs2_def)
  show ?case using step len g2 each rest by blast
qed

lemma visit_robots_none:
  "\<forall>k \<in> set ks. \<not> robot_takes_part (rs ! k) \<Longrightarrow> visit_robots ks mps rs box = (ks, rs, box)"
  by (induction ks) (auto simp add: robot_takes_part_def)

lemma process_box_none:
  assumes "\<forall>k < nat (sim_num_robots sim). \<not> robot_takes_part (sim_robots sim ! k)"
  shows "process_box config t b (sim, result) =
           (sim, result\<lparr> total_mangos := total_mangos result + num_mangos (sim_boxes sim ! b),
                         labeled_mangos := labeled_mangos result + labeled_count (sim_boxes sim ! b),
                         missed_mangos := missed_mangos result
                            + (num_mangos (sim_boxes sim ! b) - labeled_count (sim_boxes sim ! b)) \<rparr>)"
proof -
  have "visit_robots [0 ..< nat (sim_num_robots sim)] (mangos_per_station (cfg_params config) t)
          (sim_robots sim) (sim_boxes sim ! b)
        = ([0 ..< nat (sim_num_robots sim)], sim_robots sim, sim_boxes sim ! b)"
    by (rule visit_robots_none) (use assms in simp)
  then show ?thesis
    by (simp add: process_box_def Let_def)
qed

lemma fold_process_box_none:
  assumes "\<forall>k < nat (sim_num_robots sim). \<not> robot_takes_part (sim_robots sim ! k)"
    and "\<forall>b \<in> set bs. labeled_count (sim_boxes sim ! b) = 0"
  shows "fst (fold (process_box config t) bs (sim, result)) = sim
       \<and> labeled_mangos (snd (fold (process_box config t) bs (sim, result))) = labeled_mangos result
       \<and> robot_failures (snd (fold (process_box config t) bs (sim, result))) = robot_failures result
       \<and> backup_activations (snd (fold (process_box config t) bs (sim, result))) = backup_activations result"
  using assms(2)
proof (induction bs arbitrary: result)
  case Nil
  show ?case by simp
next
  case (Cons b bs)
  define result1 where "result1 = result\<lparr> total_mangos := total_mangos result + num_mangos (sim_boxes sim ! b),
                         labeled_mangos := labeled_mangos result + labeled_count (sim_boxes sim ! b),
                         missed_mangos := missed_mangos result
                            + (num_mangos (sim_boxes sim ! b) - labeled_count (sim_boxes sim ! b)) \<rparr>"
  have step: "process_box config t b (sim, result) = (sim, result1)"
    unfolding result1_def using assms(1) by (rule process_box_none)
  have rest: "\<forall>b \<in> set bs. labeled_count (sim_boxes sim ! b) = 0" using Cons.prems by simp
  have zero: "labeled_count (sim_boxes sim ! b) = 0" using Cons.prems by simp
  note ih = Cons.IH [OF rest, of result1]
  show ?case
    using ih zero by (simp add: step result1_def)
qed

text \<open>
  C9 as amended. In a run of the batch estimator with failure probability 1 and no
  backups, in which no call of \<open>rand()\<close> returns \<open>RAND_MAX\<close> itself, every robot of
  the roster (all are main robots) ends the run in state Failed with \<open>has_failed\<close>
  set, every box of the run ends with \<open>labeled_count = 0\<close>, and the result records
  as many robot failures as there are robots, no labeled item and no backup activation.
\<close>

theorem batch_all_robots_fail:
  assumes "failure_prob config = 1" and "num_backup config = 0"
    and "1 \<le> cfg_num_robots config" and "cfg_num_robots config \<le> MAX_ROBOTS"
    and "rng_below g"
    and "0 < param_Z (cfg_params config)"
    and "N_min (cfg_params config) \<le> N_max (cfg_params config)"
    and "N_max (cfg_params config) \<le> MAX_MANGOS_PER_BOX"
    and "int (length (sim_robots sim)) = MAX_ROBOTS"
    and "nat (num_boxes config) \<le> length (sim_boxes sim)"
    and "\<forall>b < length (sim_boxes sim). length (mangos (sim_boxes sim ! b)) = 100"
  shows "(\<forall>i < nat (cfg_num_robots config).
            robot_state (sim_robots (fst (snd (run_single_simulation config t0 t1 sim g))) ! i)
              = ROBOT_STATE_FAILED
            \<and> has_failed (sim_robots (fst (snd (run_single_simulation config t0 t1 sim g))) ! i)
            \<and> \<not> is_backup (sim_robots (fst (snd (run_single_simulation config t0 t1 sim g))) ! i))
       \<and> sim_num_robots (fst (snd (run_single_simulation config t0 t1 sim g))) = cfg_num_robots config
       \<and> (\<forall>b < nat (num_boxes config).
            labeled_count (sim_boxes (fst (snd (run_single_simulation config t0 t1 sim g))) ! b) = 0)
       \<and> robot_failures (fst (run_single_simulation config t0 t1 sim g)) = cfg_num_robots config
       \<and> labeled_mangos (fst (run_single_simulation config t0 t1 sim g)) = 0
       \<and> backup_activations (fst (run_single_simulation config t0 t1 sim g)) = 0"
proof -
  let ?nr = "cfg_num_robots config"
  define rs1 where "rs1 = fold (init_sim_robot config
                              (param_W (cfg_params config) / real_of_int ?nr))
                             [0 ..< nat ?nr] (sim_robots sim)"
  obtain boxes1 wa g1 where gen:
    "fold (generate_box_slot config) [0 ..< nat (num_boxes config)] (sim_boxes sim, [], g)
       = (boxes1, wa, g1)"
    by (cases "fold (generate_box_slot config) [0 ..< nat (num_boxes config)] (sim_boxes sim, [], g)") auto
  define sim1 where "sim1 = sim\<lparr> sim_robots := rs1, sim_num_robots := ?nr,
                                 sim_boxes := boxes1, sim_box_count := num_boxes config \<rparr>"
  have init: "init_simulation config sim g = (sim1, wa, g1)"
    unfolding init_simulation_eq using gen assms(2) by (simp add: sim1_def rs1_def)
  have nlen: "nat ?nr \<le> length (sim_robots sim)"
    using assms(4,9) by linarith
  note ir = fold_init_sim_robot [OF nlen, of config "param_W (cfg_params config) / real_of_int ?nr"]
  have len1: "length rs1 = length (sim_robots sim)" using ir by (simp add: rs1_def)
  have nb1: "\<forall>i < nat ?nr. \<not> is_backup (rs1 ! i)"
    using ir unfolding rs1_def by auto
  have gok: "rng_ok g" using assms(5) by (rule rng_below_ok)
  note gb = fold_generate_box_slot [OF gok assms(6,7,8,11,10) gen]
  have zero1: "\<forall>b < nat (num_boxes config). labeled_count (boxes1 ! b) = 0"
    using gb by simp
  have "rng_suffix g1 g"
    using fold_generate_box_slot_suffix [of config "[0 ..< nat (num_boxes config)]" "(sim_boxes sim, [], g)"] gen
    by simp
  then have g1b: "rng_below g1" using assms(5) rng_below_suffix by blast
  have nn: "nat ?nr = nat (sim_num_robots sim1)" by (simp add: sim1_def)
  have mle: "nat ?nr \<le> length rs1" using nlen len1 by simp
  from fold_failure_pass [OF assms(1) nn mle g1b nb1, of zero_result]
  obtain rs2 g2 where fp:
    "fold (failure_pass_robot config (sim_num_robots sim1)) [0 ..< nat ?nr] (rs1, zero_result, g1)
       = (rs2, zero_result\<lparr> robot_failures := robot_failures zero_result + int (nat ?nr) \<rparr>, g2)"
    "length rs2 = length rs1"
    "\<forall>i < nat ?nr. has_failed (rs2 ! i) \<and> robot_state (rs2 ! i) = ROBOT_STATE_FAILED \<and> \<not> is_backup (rs2 ! i)"
    by blast
  define result2 where "result2 = zero_result\<lparr> robot_failures := robot_failures zero_result + int (nat ?nr) \<rparr>"
  have pass: "failure_pass config (sim_num_robots sim1) (sim_robots sim1, zero_result, g1) = (rs2, result2, g2)"
    using fp(1) assms(1) by (simp add: failure_pass_def sim1_def result2_def)
  define sim2 where "sim2 = sim1\<lparr> sim_robots := rs2 \<rparr>"
  have none: "\<forall>k < nat (sim_num_robots sim2). \<not> robot_takes_part (sim_robots sim2 ! k)"
    using fp(3) by (simp add: sim2_def sim1_def robot_takes_part_def)
  have zero2: "\<forall>b \<in> set [0 ..< nat (sim_box_count sim1)]. labeled_count (sim_boxes sim2 ! b) = 0"
    using zero1 by (simp add: sim2_def sim1_def)
  define et where "et = param_W (cfg_params config) / real_of_int ?nr / param_X (cfg_params config)"
  note pb = fold_process_box_none [OF none zero2, of config et result2]
  obtain sim3 result3 where loop:
    "fold (process_box config et) [0 ..< nat (sim_box_count sim1)] (sim2, result2) = (sim3, result3)"
    by (cases "fold (process_box config et) [0 ..< nat (sim_box_count sim1)] (sim2, result2)") auto
  have s3: "sim3 = sim2" and r3: "labeled_mangos result3 = labeled_mangos result2"
    "robot_failures result3 = robot_failures result2"
    "backup_activations result3 = backup_activations result2"
    using pb loop by simp_all
  have run: "fst (snd (run_single_simulation config t0 t1 sim g)) = sim2"
    using init pass loop s3
    by (simp add: run_single_simulation_def Let_def et_def sim2_def)
  have res: "robot_failures (fst (run_single_simulation config t0 t1 sim g)) = robot_failures result3"
    "labeled_mangos (fst (run_single_simulation config t0 t1 sim g)) = labeled_mangos result3"
    "backup_activations (fst (run_single_simulation config t0 t1 sim g)) = backup_activations result3"
    using init pass loop
    by (simp_all add: run_single_simulation_def Let_def et_def sim2_def)
  have rf: "robot_failures result2 = ?nr"
    using assms(3) by (simp add: result2_def zero_result_def)
  have lm: "labeled_mangos result2 = 0" and ba: "backup_activations result2 = 0"
    by (simp_all add: result2_def zero_result_def)
  have robots: "\<forall>i < nat ?nr. robot_state (sim_robots sim2 ! i) = ROBOT_STATE_FAILED
            \<and> has_failed (sim_robots sim2 ! i) \<and> \<not> is_backup (sim_robots sim2 ! i)"
    using fp(3) by (simp add: sim2_def)
  have boxes: "\<forall>b < nat (num_boxes config). labeled_count (sim_boxes sim2 ! b) = 0"
    using zero1 by (simp add: sim2_def sim1_def)
  have num: "sim_num_robots sim2 = ?nr" by (simp add: sim2_def sim1_def)
  show ?thesis
    unfolding run res r3 using robots boxes num rf lm ba by simp
qed

theorem batch_all_robots_fail_witness:
  "failure_prob failing_config = 1 \<and> num_backup failing_config = 0
   \<and> 1 \<le> cfg_num_robots failing_config \<and> cfg_num_robots failing_config \<le> MAX_ROBOTS
   \<and> rng_below (\<lambda>k. 0)
   \<and> nat (num_boxes failing_config) \<le> length (sim_boxes start_simulator)
   \<and> robot_state (sim_robots (fst (snd (run_single_simulation failing_config 0 1 start_simulator (\<lambda>k. 0)))) ! 2)
        = ROBOT_STATE_FAILED
   \<and> labeled_count (sim_boxes (fst (snd (run_single_simulation failing_config 0 1 start_simulator (\<lambda>k. 0)))) ! 1) = 0
   \<and> robot_failures (fst (run_single_simulation failing_config 0 1 start_simulator (\<lambda>k. 0))) = 3"
proof -
  have a: "failure_prob failing_config = 1" by (simp add: failing_config_def)
  have b: "num_backup failing_config = 0" by (simp add: failing_config_def)
  have c: "1 \<le> cfg_num_robots failing_config" by (simp add: failing_config_def)
  have d: "cfg_num_robots failing_config \<le> MAX_ROBOTS" by (simp add: failing_config_def MAX_ROBOTS_def)
  have e: "rng_below (\<lambda>k. 0)" by (simp add: rng_below_def RAND_MAX_def)
  have f: "0 < param_Z (cfg_params failing_config)" by (simp add: failing_config_def default_params_def)
  have g: "N_min (cfg_params failing_config) \<le> N_max (cfg_params failing_config)"
    by (simp add: failing_config_def default_params_def)
  have h: "N_max (cfg_params failing_config) \<le> MAX_MANGOS_PER_BOX"
    by (simp add: failing_config_def default_params_def MAX_MANGOS_PER_BOX_def)
  have i: "int (length (sim_robots start_simulator)) = MAX_ROBOTS"
    by (simp add: start_simulator_def MAX_ROBOTS_def)
  have j: "nat (num_boxes failing_config) \<le> length (sim_boxes start_simulator)"
    by (simp add: failing_config_def start_simulator_def)
  have k: "\<forall>b < length (sim_boxes start_simulator). length (mangos (sim_boxes start_simulator ! b)) = 100"
    by (simp add: start_simulator_def cleared_box_def)
  have n3: "cfg_num_robots failing_config = 3" and two: "(2::nat) < nat (cfg_num_robots failing_config)"
    and one: "(1::nat) < nat (num_boxes failing_config)"
    by (simp_all add: failing_config_def)
  show ?thesis
    using a b c d e j two one batch_all_robots_fail [OF a b c d e f g h i j k, of 0 1]
    unfolding n3 by blast
qed

text \<open>
  C9, refuted on the live controller. With failure probability \<open>B = 1\<close>, two main
  robots and no backup, \<open>check_robot_failure\<close> lets a robot fail in a cycle only if
  \<open>rand() / RAND_MAX < B / 1000\<close>. When the draws are \<open>1073741823\<close> (about half of
  \<open>RAND_MAX\<close>), the checks of both robots return \<open>0\<close>: no robot is Failed, no failure is
  recorded, and the robots go on to label.
\<close>

theorem live_failure_probability_one:
  "param_B (g_params roster_b1) = 1 \<and> g_num_robots roster_b1 = 2
   \<and> \<not> is_backup (g_robots roster_b1 ! 0)
   \<and> fst (check_robot_failure 0 1073741823 roster_b1) = 0
   \<and> \<not> has_failed (g_robots (failure_checks [(0, 1073741823), (1, 1073741823)] roster_b1) ! 0)
   \<and> robot_state (g_robots (failure_checks [(0, 1073741823), (1, 1073741823)] roster_b1) ! 0)
        \<noteq> ROBOT_STATE_FAILED
   \<and> shm_robot_failures (failure_checks [(0, 1073741823), (1, 1073741823)] roster_b1) = 0"
  by code_simp


section \<open>Item histories\<close>




















section \<open>The labelling pass within a whole run of the batch estimator\<close>

lemma sim_backup_scan_length: "length (snd (sim_backup_scan js i rs)) = length rs"
  by (induction js) auto

lemma failure_pass_robot_length:
  "length (fst (failure_pass_robot config n i s)) = length (fst s)"
proof (cases s)
  case (fields rs result g)
  show ?thesis
    unfolding fields
    by (simp add: failure_pass_robot_def split_beta Let_def sim_backup_scan_length)
qed

lemma fold_failure_pass_length:
  "length (fst (fold (failure_pass_robot config n) is s)) = length (fst s)"
  by (induction "is" arbitrary: s) (simp_all add: failure_pass_robot_length)

lemma failure_pass_length: "length (fst (failure_pass config n s)) = length (fst s)"
  by (simp add: failure_pass_def fold_failure_pass_length)

lemma fold_init_sim_robot_length:
  "length (fold (init_sim_robot config sp) is rs) = length rs"
  by (induction "is" arbitrary: rs) (simp_all add: init_sim_robot_def Let_def)

lemma process_box_at:
  "process_box config t b (sim, result) =
     (sim\<lparr> sim_robots := robots_after (sim_num_robots sim) (mangos_per_station (cfg_params config) t)
                            (sim_robots sim) (sim_boxes sim ! b),
           sim_boxes := (sim_boxes sim)[b := box_after (sim_num_robots sim)
                            (mangos_per_station (cfg_params config) t) (sim_robots sim) (sim_boxes sim ! b)] \<rparr>,
      snd (process_box config t b (sim, result)))"
  by (simp add: process_box_def robots_after_def box_after_def split_beta Let_def)

lemma count_taking_part_cong:
  "\<forall>k. robot_takes_part (rs' ! k) = robot_takes_part (rs ! k) \<Longrightarrow>
     count_taking_part rs' ks = count_taking_part rs ks"
  by (simp add: count_taking_part_def)

lemma fold_process_box_counts:
  assumes "nat (sim_num_robots sim) \<le> length (sim_robots sim)"
    and "m \<le> length (sim_boxes sim)"
    and "\<forall>b < m. labeled_prefix (sim_boxes sim ! b) 0"
  shows "sim_num_robots (fst (fold (process_box config t) [0 ..< m] (sim, result))) = sim_num_robots sim
       \<and> length (sim_robots (fst (fold (process_box config t) [0 ..< m] (sim, result)))) = length (sim_robots sim)
       \<and> length (sim_boxes (fst (fold (process_box config t) [0 ..< m] (sim, result)))) = length (sim_boxes sim)
       \<and> (\<forall>k. robot_takes_part (sim_robots (fst (fold (process_box config t) [0 ..< m] (sim, result))) ! k)
                = robot_takes_part (sim_robots sim ! k))
       \<and> (\<forall>b \<ge> m. sim_boxes (fst (fold (process_box config t) [0 ..< m] (sim, result))) ! b = sim_boxes sim ! b)
       \<and> (\<forall>b < m. num_mangos (sim_boxes (fst (fold (process_box config t) [0 ..< m] (sim, result))) ! b)
                     = num_mangos (sim_boxes sim ! b)
                   \<and> labeled_count (sim_boxes (fst (fold (process_box config t) [0 ..< m] (sim, result))) ! b)
                     = min (num_mangos (sim_boxes sim ! b))
                           (count_taking_part (sim_robots sim) [0 ..< nat (sim_num_robots sim)]
                              * mangos_per_station (cfg_params config) t))"
  using assms(2,3)
proof (induction m)
  case 0
  show ?case by simp
next
  case (Suc m)
  define mps where "mps = mangos_per_station (cfg_params config) t"
  obtain sim1 result1 where mid: "fold (process_box config t) [0 ..< m] (sim, result) = (sim1, result1)"
    by (cases "fold (process_box config t) [0 ..< m] (sim, result)") auto
  have mle: "m \<le> length (sim_boxes sim)" and fr: "\<forall>b < m. labeled_prefix (sim_boxes sim ! b) 0"
    using Suc.prems by simp_all
  note ih = Suc.IH [OF mle fr, unfolded mid fst_conv, folded mps_def]
  have nr1: "sim_num_robots sim1 = sim_num_robots sim"
    and lr1: "length (sim_robots sim1) = length (sim_robots sim)"
    and lb1: "length (sim_boxes sim1) = length (sim_boxes sim)"
    and tp1: "\<forall>k. robot_takes_part (sim_robots sim1 ! k) = robot_takes_part (sim_robots sim ! k)"
    and rest1: "\<forall>b \<ge> m. sim_boxes sim1 ! b = sim_boxes sim ! b"
    using ih by simp_all
  define box where "box = sim_boxes sim1 ! m"
  have boxm: "box = sim_boxes sim ! m" using rest1 by (simp add: box_def)
  have fresh: "labeled_prefix box 0" using Suc.prems(2) boxm by simp
  have mps1: "1 \<le> mps" unfolding mps_def by (rule mangos_per_station_pos)
  obtain vis rs' box' where run:
    "visit_robots [0 ..< nat (sim_num_robots sim1)] mps (sim_robots sim1) box = (vis, rs', box')"
    by (cases "visit_robots [0 ..< nat (sim_num_robots sim1)] mps (sim_robots sim1) box") auto
  from visit_robots_prefix [OF fresh mps1 run] obtain L' where pre:
    "labeled_prefix box' L'" "num_mangos box' = num_mangos box"
    "int L' = min (num_mangos box)
                (int 0 + int (length (filter (\<lambda>k. robot_takes_part (sim_robots sim1 ! k))
                                 [0 ..< nat (sim_num_robots sim1)])) * mps)"
    by blast
  have cnt: "labeled_count box' = min (num_mangos box)
                (count_taking_part (sim_robots sim1) [0 ..< nat (sim_num_robots sim1)] * mps)"
    using pre(1,3) by (simp add: labeled_prefix_def count_taking_part_def)
  have inr: "\<forall>k \<in> set [0 ..< nat (sim_num_robots sim1)]. k < length (sim_robots sim1)"
    using assms(1) nr1 lr1 by simp
  note lb = visit_robots_labels [OF fresh mps1 distinct_upt inr run]
  have lr': "length rs' = length (sim_robots sim1)" using lb by simp
  have tp': "\<forall>k. robot_takes_part (rs' ! k) = robot_takes_part (sim_robots sim1 ! k)"
  proof
    fix k
    from lb obtain d where "rs' ! k = (sim_robots sim1 ! k)\<lparr> labels_placed := labels_placed (sim_robots sim1 ! k) + d \<rparr>"
      by blast
    then show "robot_takes_part (rs' ! k) = robot_takes_part (sim_robots sim1 ! k)"
      by (simp add: robot_takes_part_def)
  qed
  define sim2 where "sim2 = sim1\<lparr> sim_robots := rs', sim_boxes := (sim_boxes sim1)[m := box'] \<rparr>"
  have step: "fst (process_box config t m (sim1, result1)) = sim2"
    using run by (simp add: process_box_def Let_def sim2_def box_def mps_def)
  have all: "fst (fold (process_box config t) [0 ..< Suc m] (sim, result)) = sim2"
    using mid step by simp
  have mlen: "m < length (sim_boxes sim1)" using Suc.prems(1) lb1 by simp
  have same_cnt: "count_taking_part (sim_robots sim1) [0 ..< nat (sim_num_robots sim1)]
      = count_taking_part (sim_robots sim) [0 ..< nat (sim_num_robots sim)]"
    unfolding nr1 using tp1 by (rule count_taking_part_cong)
  have c1: "sim_num_robots sim2 = sim_num_robots sim" by (simp add: sim2_def nr1)
  have c2: "length (sim_robots sim2) = length (sim_robots sim)" by (simp add: sim2_def lr' lr1)
  have c3: "length (sim_boxes sim2) = length (sim_boxes sim)" by (simp add: sim2_def lb1)
  have c4: "\<forall>k. robot_takes_part (sim_robots sim2 ! k) = robot_takes_part (sim_robots sim ! k)"
    using tp' tp1 by (simp add: sim2_def)
  have c5: "\<forall>b \<ge> Suc m. sim_boxes sim2 ! b = sim_boxes sim ! b"
    using rest1 by (simp add: sim2_def)
  have c6: "\<forall>b < Suc m. num_mangos (sim_boxes sim2 ! b) = num_mangos (sim_boxes sim ! b)
                   \<and> labeled_count (sim_boxes sim2 ! b)
                     = min (num_mangos (sim_boxes sim ! b))
                           (count_taking_part (sim_robots sim) [0 ..< nat (sim_num_robots sim)] * mps)"
  proof (intro allI impI)
    fix b assume b: "b < Suc m"
    show "num_mangos (sim_boxes sim2 ! b) = num_mangos (sim_boxes sim ! b)
                   \<and> labeled_count (sim_boxes sim2 ! b)
                     = min (num_mangos (sim_boxes sim ! b))
                           (count_taking_part (sim_robots sim) [0 ..< nat (sim_num_robots sim)] * mps)"
    proof (cases "b = m")
      case True
      then show ?thesis using mlen cnt pre(2) same_cnt boxm by (simp add: sim2_def)
    next
      case False
      then have "b < m" using b by simp
      then show ?thesis using ih False by (simp add: sim2_def)
    qed
  qed
  show ?case
    unfolding all mps_def [symmetric] using c1 c2 c3 c4 c5 c6 by blast
qed

text \<open>
  In a whole run of the batch estimator every box is generated afresh and then passes
  the robot loop once, so each box of the run ends with
  \<open>labeled_count = min(num_mangos, A * mangos_per_station)\<close>, where \<open>A\<close> is the
  number of robots of the roster that are neither Disabled nor failed.
\<close>

lemma run_single_simulation_labeled_count:
  assumes "rng_ok g" and "0 < param_Z (cfg_params config)"
    and "0 \<le> N_min (cfg_params config)"
    and "N_min (cfg_params config) \<le> N_max (cfg_params config)"
    and "N_max (cfg_params config) \<le> MAX_MANGOS_PER_BOX"
    and "cfg_num_robots config + num_backup config \<le> MAX_ROBOTS"
    and "int (length (sim_robots sim)) = MAX_ROBOTS"
    and "nat (num_boxes config) \<le> length (sim_boxes sim)"
    and "\<forall>b < length (sim_boxes sim). length (mangos (sim_boxes sim ! b)) = 100"
  shows "\<forall>b < nat (num_boxes config).
           labeled_count (sim_boxes (fst (snd (run_single_simulation config t0 t1 sim g))) ! b)
             = min (num_mangos (sim_boxes (fst (snd (run_single_simulation config t0 t1 sim g))) ! b))
                   (count_taking_part (sim_robots (fst (snd (run_single_simulation config t0 t1 sim g))))
                       [0 ..< nat (sim_num_robots (fst (snd (run_single_simulation config t0 t1 sim g))))]
                    * mangos_per_station (cfg_params config)
                        (param_W (cfg_params config) / real_of_int (cfg_num_robots config)
                           / param_X (cfg_params config)))"
proof -
  let ?n = "cfg_num_robots config + num_backup config"
  define rs1 where "rs1 = fold (init_sim_robot config
                              (param_W (cfg_params config) / real_of_int (cfg_num_robots config)))
                             [0 ..< nat ?n] (sim_robots sim)"
  obtain boxes1 wa g1 where gen:
    "fold (generate_box_slot config) [0 ..< nat (num_boxes config)] (sim_boxes sim, [], g)
       = (boxes1, wa, g1)"
    by (cases "fold (generate_box_slot config) [0 ..< nat (num_boxes config)] (sim_boxes sim, [], g)") auto
  define sim1 where "sim1 = sim\<lparr> sim_robots := rs1, sim_num_robots := ?n,
                                 sim_boxes := boxes1, sim_box_count := num_boxes config \<rparr>"
  have init: "init_simulation config sim g = (sim1, wa, g1)"
    unfolding init_simulation_eq using gen by (simp add: sim1_def rs1_def)
  have len1: "length rs1 = length (sim_robots sim)"
    unfolding rs1_def by (rule fold_init_sim_robot_length)
  note gb = fold_generate_box_slot [OF assms(1,2,4,5,9,8) gen]
  have lenb: "length boxes1 = length (sim_boxes sim)" using gb by simp
  have fresh: "\<forall>b < nat (num_boxes config). labeled_prefix (boxes1 ! b) 0"
    using gb assms(3) by simp
  obtain rs2 result2 g2 where pass:
    "failure_pass config (sim_num_robots sim1) (sim_robots sim1, zero_result, g1) = (rs2, result2, g2)"
    by (cases "failure_pass config (sim_num_robots sim1) (sim_robots sim1, zero_result, g1)") auto
  have len2: "length rs2 = length rs1"
    using failure_pass_length [of config "sim_num_robots sim1" "(sim_robots sim1, zero_result, g1)"] pass
    by (simp add: sim1_def)
  define sim2 where "sim2 = sim1\<lparr> sim_robots := rs2 \<rparr>"
  define et where "et = param_W (cfg_params config) / real_of_int (cfg_num_robots config)
                           / param_X (cfg_params config)"
  have a1: "nat (sim_num_robots sim2) \<le> length (sim_robots sim2)"
    using assms(6,7) len1 len2 by (simp add: sim2_def sim1_def)
  have a2: "nat (num_boxes config) \<le> length (sim_boxes sim2)"
    using assms(8) lenb by (simp add: sim2_def sim1_def)
  have a3: "\<forall>b < nat (num_boxes config). labeled_prefix (sim_boxes sim2 ! b) 0"
    using fresh by (simp add: sim2_def sim1_def)
  obtain sim3 result3 where loop:
    "fold (process_box config et) [0 ..< nat (num_boxes config)] (sim2, result2) = (sim3, result3)"
    by (cases "fold (process_box config et) [0 ..< nat (num_boxes config)] (sim2, result2)") auto
  note fp = fold_process_box_counts [OF a1 a2 a3, of config et result2, unfolded loop fst_conv]
  have run: "fst (snd (run_single_simulation config t0 t1 sim g)) = sim3"
    using init pass loop
    by (simp add: run_single_simulation_def Let_def et_def sim2_def sim1_def)
  have nr3: "sim_num_robots sim3 = sim_num_robots sim2" using fp by simp
  have "\<forall>k. robot_takes_part (sim_robots sim3 ! k) = robot_takes_part (sim_robots sim2 ! k)"
    using fp by simp
  then have cnt: "count_taking_part (sim_robots sim3) [0 ..< nat (sim_num_robots sim3)]
      = count_taking_part (sim_robots sim2) [0 ..< nat (sim_num_robots sim2)]"
    unfolding nr3 by (rule count_taking_part_cong)
  show ?thesis
    unfolding run et_def [symmetric] cnt using fp by simp
qed


end
